theory Spec2Isabelle
  imports Main
begin

section \<open>The incremental file indexer (src/app/lib/fileIndexer.js)\<close>

text \<open>
  The class of \<^verbatim>\<open>fileIndexer.js\<close> is embedded as a record of its fields together
  with the parts of the outside world it writes (the cache file, the index artifact, the
  status marker, the error log, the queue of \<^verbatim>\<open>setImmediate\<close> callbacks and the
  notifications it fires). Its methods are functions from that record to the updated
  record. What the collaborators answer (file system, tag library, clock) is a parameter
  \<open>env\<close> of each method; an exception is the left summand of a sum.
\<close>

subsection \<open>Values\<close>

text \<open>A thrown JavaScript value: its \<^verbatim>\<open>type\<close> property, and its \<^verbatim>\<open>JSON.stringify\<close> form.\<close>

datatype exn = Exn (exType: "string option") (exJson: string)

text \<open>The \<^verbatim>\<open>TypeError\<close> of reading a property of \<^verbatim>\<open>undefined\<close> or \<^verbatim>\<open>null\<close>.\<close>

definition typeError :: exn where
  "typeError = Exn None ''{}''"

text \<open>What \<^verbatim>\<open>jsmediatags.read\<close> hands to \<^verbatim>\<open>onSuccess\<close>: \<^verbatim>\<open>tag.type\<close> and \<^verbatim>\<open>tag.tags\<close>.\<close>

record mediaTag =
  tag_type :: string
  tags_title :: "string option"
  tags_album :: "string option"
  tags_track :: "string option"
  tags_artist :: "string option"

text \<open>The object stored in \<^verbatim>\<open>fileCachedData.tagData\<close> (lines 195 to 201).\<close>

record tag_data =
  name :: "string option"
  album :: "string option"
  track :: "string option"
  artist :: "string option"
  clippedPath :: string

text \<open>
  A document of the lokijs collection \<^verbatim>\<open>fileData\<close>. A property that is
  \<^verbatim>\<open>undefined\<close> or \<^verbatim>\<open>null\<close> is \<open>None\<close>; \<open>dirty\<close> is what
  \<^verbatim>\<open>find({dirty : true})\<close> tests.
\<close>

record fileRecord =
  file_path :: string
  dirty :: bool
  mtime :: string
  tagData :: "tag_data option"
  isValid :: "bool option"

text \<open>One \<^verbatim>\<open>item\<close> element of the index document (lines 295 to 300).\<close>

record item =
  item_album :: "string option"
  item_artist :: "string option"
  item_name :: "string option"
  item_path :: string

text \<open>The index document: the \<^verbatim>\<open>date\<close> attribute of \<^verbatim>\<open>items\<close> and its children.\<close>

record artifact =
  date :: nat
  items :: "item list"

text \<open>
  The file at \<^verbatim>\<open>_lokijsPath\<close>: either it holds a collection \<^verbatim>\<open>fileData\<close>, or
  \<^verbatim>\<open>getCollection\<close> finds none after loading it.
\<close>

datatype lokiContent = Usable "fileRecord list" | Corrupt

datatype notification =
    IndexingStart
  | IndexingDone
  | Progress int int "string option" "string option"

text \<open>
  The file watcher, as far as the indexer reads and writes it: its \<^verbatim>\<open>dirty\<close> flag,
  \<^verbatim>\<open>Object.keys(files)\<close> and \<^verbatim>\<open>watchPath\<close>.
\<close>

record watcher =
  watcher_dirty :: bool
  files :: "string list"
  watchPath :: string

text \<open>
  The answers of the collaborators during one callback: \<^verbatim>\<open>fs.pathExists\<close>,
  \<^verbatim>\<open>fs.statSync(file).mtime.toString()\<close>, \<^verbatim>\<open>_readID3Tag\<close>, the helpers of
  \<^verbatim>\<open>pathHelper\<close> (their module is not part of the sources), whether the three file
  writes fail, and the two values of \<^verbatim>\<open>new Date().getTime()\<close> at lines 271 and 315.
\<close>

record env =
  pathExists :: "string \<Rightarrow> exn + bool"
  statMtime :: "string \<Rightarrow> exn + string"
  readID3Tag :: "string \<Rightarrow> exn + mediaTag"
  toUnixPath :: "string \<Rightarrow> string"
  getIndexPath :: "string \<Rightarrow> string"
  getStatusPath :: "string \<Rightarrow> string"
  clearLogFails :: "exn option"
  outputIndexFails :: "exn option"
  writeStatusFails :: "exn option"
  dateAtIndex :: nat
  dateAtStatus :: nat

text \<open>
  The fields of the class (constructor, lines 35 to 56), then the world around it.
  \<open>fileTable\<close> is \<open>None\<close> while \<^verbatim>\<open>_fileTable\<close> is \<^verbatim>\<open>null\<close>. The three
  callbacks are modelled by whether one is registered; calling one appends to
  \<open>notifications\<close>. \<open>pendingCallbacks\<close> counts the callbacks that
  \<^verbatim>\<open>_handleNextFile\<close> has queued with \<^verbatim>\<open>setImmediate\<close> and that have not run yet,
  \<open>tagReads\<close> lists the paths \<^verbatim>\<open>_readID3Tag\<close> was called with, and \<open>uncaught\<close>
  the exceptions that left an asynchronous function without a handler.
\<close>

record indexer =
  fileWatcher :: watcher
  busy :: bool
  errorsOccurred :: bool
  processedCount :: int
  toProcessCount :: int
  fileKeys :: "string list"
  fileTable :: "fileRecord list option"
  interval :: bool
  onIndexingStart :: bool
  onIndexingDone :: bool
  onProgress :: bool
  lokiFile :: "lokiContent option"
  logFile :: "string list"
  indexFiles :: "string \<Rightarrow> artifact option"
  statusFiles :: "string \<Rightarrow> nat option"
  notifications :: "notification list"
  pendingCallbacks :: nat
  tagReads :: "string list"
  uncaught :: "exn list"

definition constructor :: "watcher \<Rightarrow> lokiContent option \<Rightarrow> indexer" where
  "constructor w disk =
     \<lparr> fileWatcher = w, busy = False, errorsOccurred = False, processedCount = 0,
       toProcessCount = 0, fileKeys = [], fileTable = None, interval = False,
       onIndexingStart = False, onIndexingDone = False, onProgress = False,
       lokiFile = disk, logFile = [], indexFiles = (\<lambda>_. None),
       statusFiles = (\<lambda>_. None), notifications = [], pendingCallbacks = 0,
       tagReads = [], uncaught = [] \<rparr>"

subsection \<open>Collaborators\<close>

text \<open>Modelled from the spec: \<^verbatim>\<open>istagValid.js\<close> is not part of the sources. A tag record
  is valid only if name, album, artist and the derived relative path are present and
  non-empty; the track number is not required.
\<close>

definition present :: "string option \<Rightarrow> bool" where
  "present v = (case v of None \<Rightarrow> False | Some s \<Rightarrow> s \<noteq> [])"

definition isTagValid :: "tag_data \<Rightarrow> bool" where
  "isTagValid t =
     (present (name t) \<and> present (album t) \<and> present (artist t) \<and> clippedPath t \<noteq> [])"

text \<open>Modelled from the spec: the watcher's \<^verbatim>\<open>remove(path)\<close> is not part of the sources.
  It removes the path from the watcher's tracked set.
\<close>

definition remove :: "string \<Rightarrow> watcher \<Rightarrow> watcher" where
  "remove p w = w\<lparr>files := removeAll p (files w)\<rparr>"

text \<open>
  \<^verbatim>\<open>String.prototype.replace\<close> with a string pattern and a replacement without
  \<^verbatim>\<open>$\<close>: the first occurrence of the pattern is replaced.
\<close>

fun js_replace :: "string \<Rightarrow> string \<Rightarrow> string \<Rightarrow> string" where
  "js_replace [] pat rep = (if pat = [] then rep else [])"
| "js_replace (c # cs) pat rep =
     (if take (length pat) (c # cs) = pat then rep @ drop (length pat) (c # cs)
      else c # js_replace cs pat rep)"

text \<open>
  The lokijs collection with its unique index on \<^verbatim>\<open>file\<close>: \<^verbatim>\<open>by('file', f)\<close>,
  \<^verbatim>\<open>insert\<close>, \<^verbatim>\<open>update\<close> and \<^verbatim>\<open>remove\<close>. Documents are handled by
  reference in the source, so \<^verbatim>\<open>update\<close> stores the document's current fields in
  the place of the document with its key.
\<close>

definition by_file :: "fileRecord list \<Rightarrow> string \<Rightarrow> fileRecord option" where
  "by_file tbl f = find (\<lambda>r. file_path r = f) tbl"

definition insertRec :: "fileRecord list \<Rightarrow> fileRecord \<Rightarrow> fileRecord list" where
  "insertRec tbl r = tbl @ [r]"

definition updateRec :: "fileRecord list \<Rightarrow> fileRecord \<Rightarrow> fileRecord list" where
  "updateRec tbl r = map (\<lambda>x. if file_path x = file_path r then r else x) tbl"

definition removeRec :: "fileRecord list \<Rightarrow> fileRecord \<Rightarrow> fileRecord list" where
  "removeRec tbl r = filter (\<lambda>x. file_path x \<noteq> file_path r) tbl"

text \<open>\<^verbatim>\<open>_loki.saveDatabase()\<close>: the collection, if there is one, goes to the cache file.\<close>

definition saveDatabase :: "indexer \<Rightarrow> indexer" where
  "saveDatabase st =
     st\<lparr>lokiFile := Some (case fileTable st of None \<Rightarrow> Corrupt | Some tbl \<Rightarrow> Usable tbl)\<rparr>"

text \<open>\<^verbatim>\<open>writeToLog\<close> (lines 372 to 377): one more line in the error log.\<close>

definition writeToLog :: "string \<Rightarrow> indexer \<Rightarrow> indexer" where
  "writeToLog text st = st\<lparr>logFile := logFile st @ [text]\<rparr>"

definition notify :: "bool \<Rightarrow> notification \<Rightarrow> indexer \<Rightarrow> indexer" where
  "notify registered n st =
     (if registered then st\<lparr>notifications := notifications st @ [n]\<rparr> else st)"

subsection \<open>Startup (lines 58 to 119)\<close>

definition createCollection :: "indexer \<Rightarrow> indexer" where
  "createCollection st = st\<lparr>fileTable := Some []\<rparr>"

definition loadLokiFromFile :: "indexer \<Rightarrow> indexer" where
  "loadLokiFromFile st =
     (let st1 = st\<lparr>fileTable := (case lokiFile st of
                                    Some (Usable tbl) \<Rightarrow> Some tbl
                                  | Some Corrupt \<Rightarrow> None
                                  | None \<Rightarrow> None)\<rparr>
      in if fileTable st1 = None
         then createCollection (st1\<lparr>lokiFile := None\<rparr>)
         else st1)"

definition start :: "indexer \<Rightarrow> indexer" where
  "start st =
     (let st1 = (if lokiFile st \<noteq> None then loadLokiFromFile st else createCollection st)
      in st1\<lparr>interval := True\<rparr>)"

definition dispose :: "indexer \<Rightarrow> indexer" where
  "dispose st = st\<lparr>interval := False\<rparr>"

subsection \<open>The per-file step (lines 159 to 234)\<close>

text \<open>
  The \<^verbatim>\<open>catch\<close> block, entered with the exception and with the values the
  variables \<^verbatim>\<open>fileCachedData\<close>, \<^verbatim>\<open>fileStats\<close> and \<^verbatim>\<open>insert\<close> have at the
  throw. Line 223 writes a property of \<^verbatim>\<open>fileCachedData\<close>: while that variable is
  still \<^verbatim>\<open>undefined\<close> the write throws, and the rest of the block is not run.
\<close>

definition catchBlock ::
  "string \<Rightarrow> exn \<Rightarrow> fileRecord option \<Rightarrow> string option \<Rightarrow> bool \<Rightarrow> indexer \<Rightarrow> indexer" where
  "catchBlock f ex fileCachedData fileStats ins st =
     (let message = (if exType ex = Some ''tagfail'' then f @ '' tag read fail.''
                     else f @ '' could not be read, is it properly tagged?'')
      in case fileCachedData of
           None \<Rightarrow> st\<lparr>uncaught := uncaught st @ [typeError]\<rparr>
         | Some r \<Rightarrow>
             (case fileTable st of
                None \<Rightarrow> st\<lparr>uncaught := uncaught st @ [typeError]\<rparr>
              | Some tbl \<Rightarrow>
                  (let r' = r\<lparr>dirty := False,
                              mtime := (case fileStats of Some m \<Rightarrow> m | None \<Rightarrow> []),
                              tagData := None\<rparr>;
                       st1 = st\<lparr>fileTable :=
                                  Some (if ins then insertRec tbl r' else updateRec tbl r')\<rparr>
                   in (writeToLog (message @ '' : '' @ exJson ex) st1)
                        \<lparr>errorsOccurred := True\<rparr>)))"

text \<open>Lines 188 to 212: the tag is read and, for the two kinds indexed, stored.\<close>

definition readAndStore ::
  "env \<Rightarrow> string \<Rightarrow> fileRecord \<Rightarrow> string option \<Rightarrow> bool \<Rightarrow> indexer \<Rightarrow> indexer" where
  "readAndStore e f fileCachedData fileStats ins st =
     (let st1 = st\<lparr>tagReads := tagReads st @ [f]\<rparr>
      in case readID3Tag e f of
           Inl ex \<Rightarrow> catchBlock f ex (Some fileCachedData) fileStats ins st1
         | Inr tag \<Rightarrow>
             if tag_type tag = ''ID3'' \<or> tag_type tag = ''MP4'' then
               (case fileTable st1 of
                  None \<Rightarrow> catchBlock f typeError (Some fileCachedData) fileStats ins st1
                | Some tbl \<Rightarrow>
                    (let fileNormalized = toUnixPath e f;
                         td = \<lparr> name = tags_title tag, album = tags_album tag,
                                track = tags_track tag, artist = tags_artist tag,
                                clippedPath =
                                  js_replace fileNormalized (watchPath (fileWatcher st1)) ''/'' \<rparr>;
                         r' = fileCachedData
                                \<lparr>dirty := True,
                                 mtime := (case fileStats of Some m \<Rightarrow> m | None \<Rightarrow> []),
                                 tagData := Some td,
                                 isValid := Some (isTagValid td)\<rparr>;
                         st2 = notify (onProgress st1)
                                 (Progress (processedCount st1) (toProcessCount st1)
                                    (tags_title tag) (tags_artist tag)) st1
                     in st2\<lparr>fileTable :=
                              Some (if ins then insertRec tbl r' else updateRec tbl r')\<rparr>))
             else st1)"

text \<open>
  The \<^verbatim>\<open>try\<close> and \<^verbatim>\<open>catch\<close> of the callback for the path \<open>f\<close>. The percentage of
  the progress text is a floating-point quotient; the notification carries the two
  counters it is computed from instead.
\<close>

definition tryFile :: "env \<Rightarrow> string \<Rightarrow> indexer \<Rightarrow> indexer" where
  "tryFile e f st =
     (case pathExists e f of
        Inl ex \<Rightarrow> catchBlock f ex None None False st
      | Inr False \<Rightarrow> st\<lparr>fileWatcher := remove f (fileWatcher st)\<rparr>
      | Inr True \<Rightarrow>
          (case fileTable st of
             None \<Rightarrow> catchBlock f typeError None None False st
           | Some tbl \<Rightarrow>
               (case by_file tbl f of
                  Some fileCachedData \<Rightarrow>
                    (case statMtime e f of
                       Inl ex \<Rightarrow> catchBlock f ex (Some fileCachedData) None False st
                     | Inr m \<Rightarrow>
                         if m = mtime fileCachedData then st
                         else readAndStore e f fileCachedData (Some m) False st)
                | None \<Rightarrow>
                    readAndStore e f
                      \<lparr> file_path = f, dirty = False, mtime = [], tagData = None, isValid = None \<rparr>
                      None True st)))"

subsection \<open>Finalization (lines 246 to 348)\<close>

text \<open>The loop over \<^verbatim>\<open>allProperties\<close> (lines 273 to 303), writer and indexer threaded.\<close>

fun writeItems ::
  "fileRecord list \<Rightarrow> string list \<Rightarrow> item list \<times> indexer \<Rightarrow> item list \<times> indexer" where
  "writeItems tbl [] acc = acc"
| "writeItems tbl (p # ps) (writer, st) =
     (case by_file tbl p of
        None \<Rightarrow> writeItems tbl ps (writer, st)
      | Some fileData \<Rightarrow>
          (case tagData fileData of
             None \<Rightarrow> writeItems tbl ps (writer, writeToLog (p @ '' has no tag data'') st)
           | Some id3 \<Rightarrow>
               if \<not> isTagValid id3 then
                 writeItems tbl ps
                   (writer,
                    (writeToLog (clippedPath id3 @ '' isn'' @ [CHR 0x27] @ ''t properly tagged'') st)
                      \<lparr>errorsOccurred := True\<rparr>)
               else
                 writeItems tbl ps
                   (writer @ [\<lparr> item_album = album id3, item_artist = artist id3,
                                item_name = name id3, item_path = clippedPath id3 \<rparr>],
                    st)))"

text \<open>Lines 322 to 326 and 329 to 335.\<close>

definition cleanDirty :: "fileRecord list \<Rightarrow> fileRecord list \<Rightarrow> fileRecord list" where
  "cleanDirty tbl dirtyRecs = foldl (\<lambda>t r. updateRec t (r\<lparr>dirty := False\<rparr>)) tbl dirtyRecs"

definition removeOrphans :: "string list \<Rightarrow> fileRecord list \<Rightarrow> fileRecord list" where
  "removeOrphans allProperties tbl =
     foldl removeRec tbl (filter (\<lambda>r. file_path r \<notin> set allProperties) tbl)"

text \<open>
  The \<^verbatim>\<open>try\<close> block of \<^verbatim>\<open>_finishHandlingChanges\<close>: the exception that ended it,
  if any, and the state it left.
\<close>

definition finishBody :: "env \<Rightarrow> indexer \<Rightarrow> exn option \<times> indexer" where
  "finishBody e st =
     (let st0 = saveDatabase st
      in case fileTable st0 of
           None \<Rightarrow> (Some typeError, st0)
         | Some tbl \<Rightarrow>
             (let dirtyRecs = filter dirty tbl
              in if dirtyRecs = [] then (None, st0)
                 else
                   (let allProperties = files (fileWatcher st0);
                        (writer, st1) = writeItems tbl allProperties ([], st0);
                        xml = \<lparr> date = dateAtIndex e, items = writer \<rparr>;
                        indexPath = getIndexPath e (watchPath (fileWatcher st1))
                    in case outputIndexFails e of
                         Some ex \<Rightarrow> (Some ex, st1)
                       | None \<Rightarrow>
                           (let st2 = st1\<lparr>indexFiles := (indexFiles st1)(indexPath \<mapsto> xml)\<rparr>;
                                statusPath = getStatusPath e (watchPath (fileWatcher st2))
                            in case writeStatusFails e of
                                 Some ex \<Rightarrow> (Some ex, st2)
                               | None \<Rightarrow>
                                   (let st3 = st2\<lparr>statusFiles :=
                                                (statusFiles st2)(statusPath \<mapsto> dateAtStatus e)\<rparr>;
                                        tbl1 = cleanDirty tbl dirtyRecs;
                                        tbl2 = removeOrphans allProperties tbl1
                                    in (None, saveDatabase (st3\<lparr>fileTable := Some tbl2\<rparr>)))))))"

text \<open>The \<^verbatim>\<open>finally\<close> block (lines 338 to 343) runs on every way out of the body.\<close>

definition finishHandlingChanges :: "env \<Rightarrow> indexer \<Rightarrow> indexer" where
  "finishHandlingChanges e st =
     (let (thrown, st1) = finishBody e st;
          st2 = (notify (onIndexingDone st1) IndexingDone st1)\<lparr>busy := False\<rparr>
      in case thrown of
           None \<Rightarrow> st2
         | Some ex \<Rightarrow> st2\<lparr>uncaught := uncaught st2 @ [ex]\<rparr>)"

subsection \<open>The tick and the callbacks (lines 121 to 239)\<close>

text \<open>\<^verbatim>\<open>_handleNextFile\<close> queues its callback with \<^verbatim>\<open>setImmediate\<close>.\<close>

definition handleNextFile :: "indexer \<Rightarrow> indexer" where
  "handleNextFile st = st\<lparr>pendingCallbacks := Suc (pendingCallbacks st)\<rparr>"

text \<open>
  \<^verbatim>\<open>_fileKeys[_processedCount]\<close>. Outside the array JavaScript yields
  \<^verbatim>\<open>undefined\<close>, here \<open>None\<close>.
\<close>

definition keyAt :: "string list \<Rightarrow> int \<Rightarrow> string option" where
  "keyAt ks i = (if 0 \<le> i \<and> i < int (length ks) then Some (ks ! nat i) else None)"

text \<open>
  The queued callback (lines 148 to 238). After the \<^verbatim>\<open>try\<close> statement, on each of
  its ways out, \<^verbatim>\<open>finally\<close> queues the next callback. For a key that is
  \<^verbatim>\<open>undefined\<close> no file is found and the watcher is asked to remove a path it does
  not track, which leaves the state as it is.
\<close>

definition callback :: "env \<Rightarrow> indexer \<Rightarrow> indexer" where
  "callback e st =
     (let st1 = st\<lparr>processedCount := processedCount st + 1\<rparr>
      in if processedCount st1 \<ge> toProcessCount st1 then finishHandlingChanges e st1
         else handleNextFile
                (case keyAt (fileKeys st1) (processedCount st1) of
                   Some f \<Rightarrow> tryFile e f st1
                 | None \<Rightarrow> st1))"

text \<open>The event loop runs one queued callback, if there is one.\<close>

definition runImmediate :: "env \<Rightarrow> indexer \<Rightarrow> indexer" where
  "runImmediate e st =
     (if pendingCallbacks st = 0 then st
      else callback e (st\<lparr>pendingCallbacks := pendingCallbacks st - 1\<rparr>))"

text \<open>\<^verbatim>\<open>_startHandlingFileChanges\<close>, the body of the timer's tick.\<close>

definition startHandlingFileChanges :: "env \<Rightarrow> indexer \<Rightarrow> indexer" where
  "startHandlingFileChanges e st =
     (if \<not> watcher_dirty (fileWatcher st) then st
      else if busy st then st
      else
        (let st1 = st\<lparr>fileWatcher := (fileWatcher st)\<lparr>watcher_dirty := False\<rparr>,
                      busy := True, errorsOccurred := False\<rparr>;
             st2 = notify (onIndexingStart st1) IndexingStart st1
         in case clearLogFails e of
              Some ex \<Rightarrow> st2\<lparr>uncaught := uncaught st2 @ [ex]\<rparr>
            | None \<Rightarrow>
                handleNextFile
                  (st2\<lparr>logFile := [],
                       processedCount := - 1,
                       fileKeys := files (fileWatcher st2),
                       toProcessCount := int (length (files (fileWatcher st2)))\<rparr>)))"

text \<open>
  \<^verbatim>\<open>wipe\<close> (lines 354 to 361) and the registration of the callbacks (lines 379 to
  389).
\<close>

definition wipe :: "env \<Rightarrow> indexer \<Rightarrow> indexer" where
  "wipe e st =
     (let st1 = st\<lparr>indexFiles := (indexFiles st)(getIndexPath e (watchPath (fileWatcher st)) := None)\<rparr>;
          st2 = st1\<lparr>statusFiles :=
                     (statusFiles st1)(getStatusPath e (watchPath (fileWatcher st1)) := None)\<rparr>
      in case fileTable st2 of
           None \<Rightarrow> st2\<lparr>uncaught := uncaught st2 @ [typeError]\<rparr>
         | Some tbl \<Rightarrow> saveDatabase (st2\<lparr>fileTable := Some []\<rparr>))"

definition onProgress_set :: "indexer \<Rightarrow> indexer" where
  "onProgress_set st = st\<lparr>onProgress := True\<rparr>"

definition onIndexingStart_set :: "indexer \<Rightarrow> indexer" where
  "onIndexingStart_set st = st\<lparr>onIndexingStart := True\<rparr>"

definition onIndexingDone_set :: "indexer \<Rightarrow> indexer" where
  "onIndexingDone_set st = st\<lparr>onIndexingDone := True\<rparr>"

subsection \<open>Runs\<close>

text \<open>
  A run is the chain of callbacks a tick has started. \<open>runQueue\<close> lets the event loop
  run callbacks until none is queued; \<open>scanFiles\<close> stops before the callback that
  finalizes, when every path of the snapshot has had its step.
\<close>

function runQueue :: "env \<Rightarrow> indexer \<Rightarrow> indexer" where
  "runQueue e st =
     (if pendingCallbacks st = 0 then st else runQueue e (runImmediate e st))"
  by pat_completeness auto
termination
proof (relation "measures [\<lambda>(e, st). nat (toProcessCount st - processedCount st),
                           \<lambda>(e, st). pendingCallbacks st]")
  show "wf (measures [\<lambda>(e, st). nat (toProcessCount st - processedCount st),
                      \<lambda>(e :: env, st). pendingCallbacks st])"
    by simp
next
  fix e :: env and st :: indexer
  assume pending: "pendingCallbacks st \<noteq> 0"
  have catch_keeps: "processedCount (catchBlock f ex c fs i s) = processedCount s
      \<and> toProcessCount (catchBlock f ex c fs i s) = toProcessCount s
      \<and> pendingCallbacks (catchBlock f ex c fs i s) = pendingCallbacks s"
    for f ex c fs i s
    by (simp add: catchBlock_def writeToLog_def Let_def split: option.splits)
  have read_keeps: "processedCount (readAndStore e f c fs i s) = processedCount s
      \<and> toProcessCount (readAndStore e f c fs i s) = toProcessCount s
      \<and> pendingCallbacks (readAndStore e f c fs i s) = pendingCallbacks s"
    for f c fs i s
    by (simp add: readAndStore_def notify_def catch_keeps Let_def split: option.splits sum.splits)
  have try_keeps: "processedCount (tryFile e f s) = processedCount s
      \<and> toProcessCount (tryFile e f s) = toProcessCount s
      \<and> pendingCallbacks (tryFile e f s) = pendingCallbacks s"
    for f s
    by (simp add: tryFile_def catch_keeps read_keeps
             split: option.splits sum.splits bool.splits)
  have items_keep: "processedCount (snd (writeItems tbl ps acc)) = processedCount (snd acc)
      \<and> toProcessCount (snd (writeItems tbl ps acc)) = toProcessCount (snd acc)
      \<and> pendingCallbacks (snd (writeItems tbl ps acc)) = pendingCallbacks (snd acc)"
    for tbl ps acc
    by (induction tbl ps acc rule: writeItems.induct)
       (simp_all add: writeToLog_def split: option.splits)
  have body_keeps: "processedCount (snd (finishBody e s)) = processedCount s
      \<and> toProcessCount (snd (finishBody e s)) = toProcessCount s
      \<and> pendingCallbacks (snd (finishBody e s)) = pendingCallbacks s"
    for s
    by (simp add: finishBody_def saveDatabase_def items_keep Let_def split_beta
             split: option.splits)
  have finish_keeps: "processedCount (finishHandlingChanges e s) = processedCount s
      \<and> toProcessCount (finishHandlingChanges e s) = toProcessCount s
      \<and> pendingCallbacks (finishHandlingChanges e s) = pendingCallbacks s"
    for s
    using body_keeps [of s]
    by (simp add: finishHandlingChanges_def notify_def Let_def split_beta split: option.splits)
  show "((e, runImmediate e st), (e, st))
      \<in> measures [\<lambda>(e, st). nat (toProcessCount st - processedCount st),
                   \<lambda>(e, st). pendingCallbacks st]"
    using pending
    by (auto simp: runImmediate_def callback_def Let_def handleNextFile_def
                   try_keeps finish_keeps split: option.splits)
qed

function scanFiles :: "env \<Rightarrow> indexer \<Rightarrow> indexer" where
  "scanFiles e st =
     (if pendingCallbacks st = 0 \<or> toProcessCount st \<le> processedCount st + 1 then st
      else scanFiles e (runImmediate e st))"
  by pat_completeness auto
termination
proof (relation "measure (\<lambda>(e, st). nat (toProcessCount st - processedCount st))")
  show "wf (measure (\<lambda>(e :: env, st). nat (toProcessCount st - processedCount st)))"
    by simp
next
  fix e :: env and st :: indexer
  assume more: "\<not> (pendingCallbacks st = 0 \<or> toProcessCount st \<le> processedCount st + 1)"
  have catch_keeps: "processedCount (catchBlock f ex c fs i s) = processedCount s
      \<and> toProcessCount (catchBlock f ex c fs i s) = toProcessCount s"
    for f ex c fs i s
    by (simp add: catchBlock_def writeToLog_def Let_def split: option.splits)
  have read_keeps: "processedCount (readAndStore e f c fs i s) = processedCount s
      \<and> toProcessCount (readAndStore e f c fs i s) = toProcessCount s"
    for f c fs i s
    by (simp add: readAndStore_def notify_def catch_keeps Let_def split: option.splits sum.splits)
  have try_keeps: "processedCount (tryFile e f s) = processedCount s
      \<and> toProcessCount (tryFile e f s) = toProcessCount s"
    for f s
    by (simp add: tryFile_def catch_keeps read_keeps
             split: option.splits sum.splits bool.splits)
  show "((e, runImmediate e st), (e, st))
      \<in> measure (\<lambda>(e, st). nat (toProcessCount st - processedCount st))"
    using more
    by (auto simp: runImmediate_def callback_def Let_def handleNextFile_def try_keeps
             split: option.splits)
qed

subsection \<open>The indexer among its collaborators\<close>

text \<open>
  What can happen to a started indexer: the timer ticks, the event loop runs a queued
  callback, the watcher changes its flag, its files or its root, and the application
  calls a public method. Each callback and each tick is taken as one step: while one
  waits for the file system, only ticks and watcher changes can come in between, and
  neither writes a field that the waiting method reads again other than the watcher's.
\<close>

datatype event =
    Tick env
  | Immediate env
  | WatcherChange watcher
  | Wipe env
  | Dispose
  | OnProgress
  | OnIndexingStart
  | OnIndexingDone

fun exec :: "event \<Rightarrow> indexer \<Rightarrow> indexer" where
  "exec (Tick e) st = (if interval st then startHandlingFileChanges e st else st)"
| "exec (Immediate e) st = runImmediate e st"
| "exec (WatcherChange w) st = st\<lparr>fileWatcher := w\<rparr>"
| "exec (Wipe e) st = wipe e st"
| "exec Dispose st = dispose st"
| "exec OnProgress st = onProgress_set st"
| "exec OnIndexingStart st = onIndexingStart_set st"
| "exec OnIndexingDone st = onIndexingDone_set st"

definition execAll :: "event list \<Rightarrow> indexer \<Rightarrow> indexer" where
  "execAll evs st = foldl (\<lambda>s ev. exec ev s) st evs"

subsection \<open>Notions used in the properties\<close>

text \<open>The record the cache holds for a path, if the collection exists and has one.\<close>

definition cachedRecord :: "indexer \<Rightarrow> string \<Rightarrow> fileRecord option" where
  "cachedRecord st f = (case fileTable st of None \<Rightarrow> None | Some tbl \<Rightarrow> by_file tbl f)"

text \<open>All the records the collection holds under a path (one, the index being unique).\<close>

definition recordsFor :: "indexer \<Rightarrow> string \<Rightarrow> fileRecord list" where
  "recordsFor st f =
     (case fileTable st of None \<Rightarrow> [] | Some tbl \<Rightarrow> filter (\<lambda>x. file_path x = f) tbl)"

text \<open>
  At most one chain of callbacks is alive, and while one is alive the busy guard is set.
\<close>

definition oneRun :: "indexer \<Rightarrow> bool" where
  "oneRun st = (pendingCallbacks st \<le> 1 \<and> (pendingCallbacks st = 1 \<longrightarrow> busy st))"

text \<open>
  The entry of the index document that a path of the watcher's file set is due: the four
  attributes of its cached tag data, if the cache has a record for it whose tag data is
  present and valid. And the line of the error log a path is due otherwise, if the cache
  has a record for it.
\<close>

definition entryFor :: "fileRecord list \<Rightarrow> string \<Rightarrow> item option" where
  "entryFor tbl p =
     (case by_file tbl p of
        None \<Rightarrow> None
      | Some r \<Rightarrow>
          (case tagData r of
             None \<Rightarrow> None
           | Some t \<Rightarrow>
               if isTagValid t
               then Some \<lparr> item_album = album t, item_artist = artist t,
                           item_name = name t, item_path = clippedPath t \<rparr>
               else None))"

definition excludedLine :: "fileRecord list \<Rightarrow> string \<Rightarrow> string option" where
  "excludedLine tbl p =
     (case by_file tbl p of
        None \<Rightarrow> None
      | Some r \<Rightarrow>
          (case tagData r of
             None \<Rightarrow> Some (p @ '' has no tag data'')
           | Some t \<Rightarrow>
               if isTagValid t then None
               else Some (clippedPath t @ '' isn'' @ [CHR 0x27] @ ''t properly tagged'')))"

text \<open>
  The exception that ends the \<^verbatim>\<open>try\<close> block of the step for a path that exists,
  the collection being \<open>tbl\<close>: thrown by \<^verbatim>\<open>fs.statSync\<close> (line 174), or by the
  tag reader (line 188) once it is reached. And the value of
  \<^verbatim>\<open>fileStats ? fileStats.mtime.toString() : ''\<close> (line 224) at that throw: the
  modification-time string if the file has been stat-ed, else the empty string.
\<close>

definition stepThrows :: "env \<Rightarrow> fileRecord list \<Rightarrow> string \<Rightarrow> exn \<Rightarrow> bool" where
  "stepThrows e tbl f ex =
     (case by_file tbl f of
        None \<Rightarrow> readID3Tag e f = Inl ex
      | Some c \<Rightarrow>
          (case statMtime e f of
             Inl x \<Rightarrow> x = ex
           | Inr m \<Rightarrow> m \<noteq> mtime c \<and> readID3Tag e f = Inl ex))"

definition mtimeIfKnown :: "env \<Rightarrow> fileRecord list \<Rightarrow> string \<Rightarrow> string" where
  "mtimeIfKnown e tbl f =
     (case by_file tbl f of
        None \<Rightarrow> []
      | Some c \<Rightarrow> (case statMtime e f of Inl x \<Rightarrow> [] | Inr m \<Rightarrow> m))"

text \<open>A tick of the timer and the run it starts, up to its last callback.\<close>

definition tickAndRun :: "env \<Rightarrow> indexer \<Rightarrow> indexer" where
  "tickAndRun e st = runQueue e (startHandlingFileChanges e st)"

subsection \<open>Concrete worlds\<close>

text \<open>
  A watch root \<^verbatim>\<open>/m/\<close>, a fully tagged song, the record the cache holds for a path
  once that song has been read there twice, and a world in which every file has the
  modification time \<^verbatim>\<open>t1\<close> and no write fails.
\<close>

definition songTag :: mediaTag where
  "songTag = \<lparr> tag_type = ''ID3'', tags_title = Some ''Song'', tags_album = Some ''Record'',
               tags_track = None, tags_artist = Some ''Band'' \<rparr>"

definition songRecord :: "string \<Rightarrow> fileRecord" where
  "songRecord p =
     \<lparr> file_path = p, dirty = False, mtime = ''t1'',
       tagData = Some \<lparr> name = Some ''Song'', album = Some ''Record'', track = None,
                        artist = Some ''Band'', clippedPath = drop 2 p \<rparr>,
       isValid = Some True \<rparr>"

definition world ::
  "(string \<Rightarrow> exn + bool) \<Rightarrow> (string \<Rightarrow> exn + mediaTag) \<Rightarrow> nat \<Rightarrow> nat \<Rightarrow> env" where
  "world ex rd d1 d2 =
     \<lparr> pathExists = ex, statMtime = (\<lambda>_. Inr ''t1''), readID3Tag = rd,
       toUnixPath = (\<lambda>p. p), getIndexPath = (\<lambda>p. p @ ''index.xml''),
       getStatusPath = (\<lambda>p. p @ ''status.json''), clearLogFails = None,
       outputIndexFails = None, writeStatusFails = None, dateAtIndex = d1,
       dateAtStatus = d2 \<rparr>"

definition musicWatcher :: "string list \<Rightarrow> watcher" where
  "musicWatcher ps = \<lparr> watcher_dirty = True, files = ps, watchPath = ''/m/'' \<rparr>"

section \<open>Properties\<close>

subsection \<open>What the per-file step leaves alone\<close>

lemma catchBlock_frame [simp]:
  "busy (catchBlock f ex c fs i s) = busy s"
  "processedCount (catchBlock f ex c fs i s) = processedCount s"
  "toProcessCount (catchBlock f ex c fs i s) = toProcessCount s"
  "pendingCallbacks (catchBlock f ex c fs i s) = pendingCallbacks s"
  "fileKeys (catchBlock f ex c fs i s) = fileKeys s"
  "fileWatcher (catchBlock f ex c fs i s) = fileWatcher s"
  "interval (catchBlock f ex c fs i s) = interval s"
  "tagReads (catchBlock f ex c fs i s) = tagReads s"
  "notifications (catchBlock f ex c fs i s) = notifications s"
  "onIndexingDone (catchBlock f ex c fs i s) = onIndexingDone s"
  by (simp_all add: catchBlock_def writeToLog_def Let_def split: option.splits)

lemma readAndStore_frame [simp]:
  "busy (readAndStore e f c fs i s) = busy s"
  "processedCount (readAndStore e f c fs i s) = processedCount s"
  "toProcessCount (readAndStore e f c fs i s) = toProcessCount s"
  "pendingCallbacks (readAndStore e f c fs i s) = pendingCallbacks s"
  "fileKeys (readAndStore e f c fs i s) = fileKeys s"
  "fileWatcher (readAndStore e f c fs i s) = fileWatcher s"
  "interval (readAndStore e f c fs i s) = interval s"
  "onIndexingDone (readAndStore e f c fs i s) = onIndexingDone s"
  by (simp_all add: readAndStore_def notify_def Let_def split: option.splits sum.splits)

lemma tryFile_frame [simp]:
  "busy (tryFile e f s) = busy s"
  "processedCount (tryFile e f s) = processedCount s"
  "toProcessCount (tryFile e f s) = toProcessCount s"
  "pendingCallbacks (tryFile e f s) = pendingCallbacks s"
  "fileKeys (tryFile e f s) = fileKeys s"
  "interval (tryFile e f s) = interval s"
  "onIndexingDone (tryFile e f s) = onIndexingDone s"
  by (simp_all add: tryFile_def split: option.splits sum.splits bool.splits)

subsection \<open>What finalization leaves alone\<close>

lemma writeItems_frame [simp]:
  "busy (snd (writeItems tbl ps acc)) = busy (snd acc)"
  "processedCount (snd (writeItems tbl ps acc)) = processedCount (snd acc)"
  "toProcessCount (snd (writeItems tbl ps acc)) = toProcessCount (snd acc)"
  "pendingCallbacks (snd (writeItems tbl ps acc)) = pendingCallbacks (snd acc)"
  "fileKeys (snd (writeItems tbl ps acc)) = fileKeys (snd acc)"
  "fileWatcher (snd (writeItems tbl ps acc)) = fileWatcher (snd acc)"
  "fileTable (snd (writeItems tbl ps acc)) = fileTable (snd acc)"
  "interval (snd (writeItems tbl ps acc)) = interval (snd acc)"
  "tagReads (snd (writeItems tbl ps acc)) = tagReads (snd acc)"
  "notifications (snd (writeItems tbl ps acc)) = notifications (snd acc)"
  "onIndexingDone (snd (writeItems tbl ps acc)) = onIndexingDone (snd acc)"
  "indexFiles (snd (writeItems tbl ps acc)) = indexFiles (snd acc)"
  "statusFiles (snd (writeItems tbl ps acc)) = statusFiles (snd acc)"
  "lokiFile (snd (writeItems tbl ps acc)) = lokiFile (snd acc)"
  "uncaught (snd (writeItems tbl ps acc)) = uncaught (snd acc)"
  by (induction tbl ps acc rule: writeItems.induct;
      simp add: writeToLog_def split: option.splits)+

lemma finishBody_frame [simp]:
  "busy (snd (finishBody e s)) = busy s"
  "processedCount (snd (finishBody e s)) = processedCount s"
  "toProcessCount (snd (finishBody e s)) = toProcessCount s"
  "pendingCallbacks (snd (finishBody e s)) = pendingCallbacks s"
  "fileKeys (snd (finishBody e s)) = fileKeys s"
  "fileWatcher (snd (finishBody e s)) = fileWatcher s"
  "interval (snd (finishBody e s)) = interval s"
  "tagReads (snd (finishBody e s)) = tagReads s"
  "notifications (snd (finishBody e s)) = notifications s"
  "onIndexingDone (snd (finishBody e s)) = onIndexingDone s"
  by (simp_all add: finishBody_def saveDatabase_def Let_def split_beta split: option.splits)

lemma finishHandlingChanges_frame [simp]:
  "processedCount (finishHandlingChanges e s) = processedCount s"
  "toProcessCount (finishHandlingChanges e s) = toProcessCount s"
  "pendingCallbacks (finishHandlingChanges e s) = pendingCallbacks s"
  "fileKeys (finishHandlingChanges e s) = fileKeys s"
  "fileWatcher (finishHandlingChanges e s) = fileWatcher s"
  "interval (finishHandlingChanges e s) = interval s"
  "tagReads (finishHandlingChanges e s) = tagReads s"
  "onIndexingDone (finishHandlingChanges e s) = onIndexingDone s"
  by (simp_all add: finishHandlingChanges_def notify_def Let_def split_beta split: option.splits)

lemma finishHandlingChanges_busy [simp]: "busy (finishHandlingChanges e s) = False"
  by (simp add: finishHandlingChanges_def notify_def Let_def split_beta split: option.splits)

lemma finishHandlingChanges_notifications:
  "notifications (finishHandlingChanges e s) =
     notifications s @ (if onIndexingDone s then [IndexingDone] else [])"
  by (simp add: finishHandlingChanges_def notify_def Let_def split_beta split: option.splits)


declare runQueue.simps [simp del] scanFiles.simps [simp del]

subsection \<open>The collection\<close>

lemma by_file_path: "by_file tbl f = Some r \<Longrightarrow> file_path r = f"
  by (auto simp: by_file_def find_Some_iff)

lemma by_file_insertRec:
  "by_file (insertRec tbl r) f =
     (case by_file tbl f of
        Some x \<Rightarrow> Some x
      | None \<Rightarrow> if file_path r = f then Some r else None)"
  by (induction tbl) (simp_all add: by_file_def insertRec_def)

lemma by_file_updateRec:
  "file_path r \<noteq> f \<Longrightarrow> by_file (updateRec tbl r) f = by_file tbl f"
  by (induction tbl) (simp_all add: by_file_def updateRec_def)

lemma by_file_updateRec_same:
  "by_file tbl (file_path r) = Some c \<Longrightarrow> by_file (updateRec tbl r) (file_path r) = Some r"
  by (induction tbl) (auto simp: by_file_def updateRec_def)

subsection \<open>A step for one path leaves the records of the other paths alone\<close>

lemma catchBlock_other:
  assumes "\<And>r. c = Some r \<Longrightarrow> file_path r \<noteq> f" and "fileTable s \<noteq> None"
  shows "cachedRecord (catchBlock g ex c fs i s) f = cachedRecord s f
       \<and> fileTable (catchBlock g ex c fs i s) \<noteq> None"
  using assms
  by (auto simp: catchBlock_def cachedRecord_def writeToLog_def Let_def by_file_insertRec
                 by_file_updateRec split: option.splits)

lemma readAndStore_other:
  assumes "file_path c \<noteq> f" and "fileTable s \<noteq> None"
  shows "cachedRecord (readAndStore e g c fs i s) f = cachedRecord s f
       \<and> fileTable (readAndStore e g c fs i s) \<noteq> None"
  using assms
  by (auto simp: readAndStore_def catchBlock_def cachedRecord_def notify_def writeToLog_def
                 Let_def by_file_insertRec by_file_updateRec split: option.splits sum.splits)

lemma tryFile_other:
  assumes "g \<noteq> f" and "fileTable s \<noteq> None"
  shows "cachedRecord (tryFile e g s) f = cachedRecord s f
       \<and> fileTable (tryFile e g s) \<noteq> None"
proof -
  have nocatch: "cachedRecord (catchBlock g ex None fs i s) f = cachedRecord s f
      \<and> fileTable (catchBlock g ex None fs i s) \<noteq> None" for ex fs i
    using catchBlock_other [of None f s g ex fs i] assms by simp
  have cached: "cachedRecord (catchBlock g ex (Some c) fs i s) f = cachedRecord s f
      \<and> fileTable (catchBlock g ex (Some c) fs i s) \<noteq> None"
    if "by_file tbl g = Some c" for ex fs i c tbl
    using catchBlock_other [of "Some c" f s g ex fs i] assms by_file_path [OF that] by simp
  have reread: "cachedRecord (readAndStore e g c fs i s) f = cachedRecord s f
      \<and> fileTable (readAndStore e g c fs i s) \<noteq> None"
    if "by_file tbl g = Some c" for fs i c tbl
    using readAndStore_other [of c f s e g fs i] assms by_file_path [OF that] by simp
  have fresh: "cachedRecord (readAndStore e g
        \<lparr> file_path = g, dirty = False, mtime = [], tagData = None, isValid = None \<rparr> fs i s) f
          = cachedRecord s f
      \<and> fileTable (readAndStore e g
        \<lparr> file_path = g, dirty = False, mtime = [], tagData = None, isValid = None \<rparr> fs i s)
          \<noteq> None" for fs i
    using readAndStore_other
      [of "\<lparr> file_path = g, dirty = False, mtime = [], tagData = None, isValid = None \<rparr>" f s e g fs i]
      assms by simp
  obtain tbl where tbl: "fileTable s = Some tbl"
    using assms by auto
  show ?thesis
  proof (cases "pathExists e g")
    case (Inl ex)
    then show ?thesis using nocatch by (simp add: tryFile_def)
  next
    case (Inr b)
    show ?thesis
    proof (cases b)
      case False
      with Inr show ?thesis using assms by (simp add: tryFile_def cachedRecord_def)
    next
      case True
      show ?thesis
      proof (cases "by_file tbl g")
        case None
        with Inr True tbl show ?thesis using fresh by (simp add: tryFile_def)
      next
        case (Some c)
        show ?thesis
        proof (cases "statMtime e g")
          case (Inl ex)
          with Inr True tbl Some show ?thesis using cached [OF Some] by (simp add: tryFile_def)
        next
          case m: (Inr m)
          with Inr True tbl Some show ?thesis
            using reread [OF Some] assms by (simp add: tryFile_def)
        qed
      qed
    qed
  qed
qed

lemma tryFile_tagReads_other:
  "g \<noteq> f \<Longrightarrow> count_list (tagReads (tryFile e g s)) f = count_list (tagReads s) f"
  by (simp add: tryFile_def readAndStore_def notify_def Let_def
           split: option.splits sum.splits bool.splits)


subsection \<open>Mutual exclusion\<close>

lemma oneRun_tick: "oneRun st \<Longrightarrow> oneRun (startHandlingFileChanges e st)"
  by (auto simp: oneRun_def startHandlingFileChanges_def notify_def handleNextFile_def Let_def
           split: option.splits)

lemma oneRun_runImmediate: "oneRun st \<Longrightarrow> oneRun (runImmediate e st)"
  by (auto simp: oneRun_def runImmediate_def callback_def handleNextFile_def Let_def
           split: option.splits)

lemma oneRun_wipe: "oneRun st \<Longrightarrow> oneRun (wipe e st)"
  by (auto simp: oneRun_def wipe_def saveDatabase_def Let_def split: option.splits)

lemma oneRun_exec: "oneRun st \<Longrightarrow> oneRun (exec ev st)"
proof (cases ev)
  case (Tick e)
  assume "oneRun st"
  with Tick show ?thesis by (simp add: oneRun_tick)
next
  case (Immediate e)
  assume "oneRun st"
  with Immediate show ?thesis by (simp add: oneRun_runImmediate)
next
  case (Wipe e)
  assume "oneRun st"
  with Wipe show ?thesis by (simp add: oneRun_wipe)
qed (simp_all add: oneRun_def dispose_def onProgress_set_def onIndexingStart_set_def
       onIndexingDone_set_def)

lemma oneRun_execAll: "oneRun st \<Longrightarrow> oneRun (execAll evs st)"
  unfolding execAll_def
  by (induction evs arbitrary: st) (simp_all add: oneRun_exec)

lemma oneRun_start: "oneRun (start (constructor w disk))"
  by (simp add: oneRun_def start_def constructor_def loadLokiFromFile_def createCollection_def
        Let_def split: option.splits lokiContent.splits)


subsection \<open>Rules for the chain of callbacks\<close>

lemma runQueue_rule:
  assumes "I st" and "\<And>s. I s \<Longrightarrow> pendingCallbacks s \<noteq> 0 \<Longrightarrow> I (runImmediate e s)"
  shows "I (runQueue e st)"
  using assms
proof (induction e st rule: runQueue.induct)
  case (1 e st)
  show ?case
  proof (cases "pendingCallbacks st = 0")
    case True
    with "1.prems"(1) show ?thesis by (simp add: runQueue.simps)
  next
    case False
    have "I (runImmediate e st)"
      by (rule "1.prems"(2) [OF "1.prems"(1) False])
    then have "I (runQueue e (runImmediate e st))"
      using "1.IH" [OF False] "1.prems"(2) by blast
    with False show ?thesis by (simp add: runQueue.simps)
  qed
qed

lemma scanFiles_rule:
  assumes "I st"
    and "\<And>s. I s \<Longrightarrow> pendingCallbacks s \<noteq> 0 \<Longrightarrow> processedCount s + 1 < toProcessCount s
           \<Longrightarrow> I (runImmediate e s)"
  shows "I (scanFiles e st)"
  using assms
proof (induction e st rule: scanFiles.induct)
  case (1 e st)
  show ?case
  proof (cases "pendingCallbacks st = 0 \<or> toProcessCount st \<le> processedCount st + 1")
    case True
    with "1.prems"(1) show ?thesis by (simp add: scanFiles.simps)
  next
    case False
    then have "I (runImmediate e st)"
      using "1.prems"(2) [OF "1.prems"(1)] by simp
    then have "I (scanFiles e (runImmediate e st))"
      using "1.IH" [OF False] "1.prems"(2) by blast
    with False show ?thesis by (subst scanFiles.simps) simp
  qed
qed

text \<open>Every run ends: no callback is left in the queue.\<close>

lemma runQueue_done: "pendingCallbacks (runQueue e st) = 0"
  by (induction e st rule: runQueue.induct) (simp add: runQueue.simps)

lemma runQueue_scanFiles: "runQueue e (scanFiles e st) = runQueue e st"
proof (induction e st rule: scanFiles.induct)
  case (1 e st)
  show ?case
  proof (cases "pendingCallbacks st = 0 \<or> toProcessCount st \<le> processedCount st + 1")
    case True
    then show ?thesis by (simp add: scanFiles.simps)
  next
    case False
    then have "runQueue e (scanFiles e st) = runQueue e (scanFiles e (runImmediate e st))"
      by (subst scanFiles.simps) simp
    also have "\<dots> = runQueue e (runImmediate e st)"
      using "1.IH" [OF False] .
    also have "\<dots> = runQueue e st"
      using False by (subst (2) runQueue.simps) simp
    finally show ?thesis .
  qed
qed

lemma tryFile_unchanged:
  assumes "cachedRecord s f = Some r" and "pathExists e f = Inr True"
    and "statMtime e f = Inr (mtime r)"
  shows "tryFile e f s = s"
  using assms by (auto simp: tryFile_def cachedRecord_def split: option.splits)

lemma callback_keeps_record:
  assumes cached: "cachedRecord s f = Some r" and "pathExists e f = Inr True"
    and "statMtime e f = Inr (mtime r)" and more: "processedCount s + 1 < toProcessCount s"
  shows "cachedRecord (callback e s) f = Some r
       \<and> count_list (tagReads (callback e s)) f = count_list (tagReads s) f"
proof (cases "keyAt (fileKeys s) (processedCount s + 1)")
  case None
  with more cached show ?thesis
    by (simp add: callback_def handleNextFile_def cachedRecord_def Let_def)
next
  case (Some g)
  let ?s1 = "s\<lparr>processedCount := processedCount s + 1\<rparr>"
  have c1: "cachedRecord ?s1 f = Some r"
    using cached by (simp add: cachedRecord_def)
  have step: "cachedRecord (tryFile e g ?s1) f = Some r
      \<and> count_list (tagReads (tryFile e g ?s1)) f = count_list (tagReads s) f"
  proof (cases "g = f")
    case True
    with tryFile_unchanged [OF c1 assms(2,3)] c1 show ?thesis by simp
  next
    case False
    have "fileTable ?s1 \<noteq> None"
      using cached by (auto simp: cachedRecord_def split: option.splits)
    with tryFile_other [OF False this, of e] tryFile_tagReads_other [OF False, of e ?s1] c1
    show ?thesis by simp
  qed
  have "callback e s = handleNextFile (tryFile e g ?s1)"
    using more Some by (simp add: callback_def Let_def)
  with step show ?thesis
    by (simp add: handleNextFile_def cachedRecord_def)
qed


lemma run_keeps_tagReads:
  assumes "cachedRecord st f = Some r" and "pathExists e f = Inr True"
    and "statMtime e f = Inr (mtime r)"
  shows "count_list (tagReads (runQueue e st)) f = count_list (tagReads st) f"
proof -
  let ?I = "\<lambda>s. count_list (tagReads s) f = count_list (tagReads st) f
              \<and> (toProcessCount s \<le> processedCount s \<or> cachedRecord s f = Some r)"
  have "?I (runQueue e st)"
  proof (rule runQueue_rule [where I = ?I])
    show "?I st" using assms(1) by simp
  next
    fix s
    assume inv: "?I s" and pending: "pendingCallbacks s \<noteq> 0"
    let ?s0 = "s\<lparr>pendingCallbacks := pendingCallbacks s - 1\<rparr>"
    have run: "runImmediate e s = callback e ?s0"
      using pending by (simp add: runImmediate_def)
    show "?I (runImmediate e s)"
    proof (cases "processedCount s + 1 < toProcessCount s")
      case True
      with inv have "cachedRecord ?s0 f = Some r"
        by (simp add: cachedRecord_def)
      from callback_keeps_record [OF this assms(2,3)] True inv run
      show ?thesis by simp
    next
      case False
      then have "callback e ?s0
          = finishHandlingChanges e (?s0\<lparr>processedCount := processedCount s + 1\<rparr>)"
        by (simp add: callback_def Let_def)
      with False inv run show ?thesis by simp
    qed
  qed
  then show ?thesis by simp
qed

lemma scan_keeps_record:
  assumes "cachedRecord st f = Some r" and "pathExists e f = Inr True"
    and "statMtime e f = Inr (mtime r)"
  shows "cachedRecord (scanFiles e st) f = Some r"
proof (rule scanFiles_rule [where I = "\<lambda>s. cachedRecord s f = Some r"])
  show "cachedRecord st f = Some r" by (rule assms(1))
next
  fix s
  assume inv: "cachedRecord s f = Some r" and pending: "pendingCallbacks s \<noteq> 0"
    and more: "processedCount s + 1 < toProcessCount s"
  let ?s0 = "s\<lparr>pendingCallbacks := pendingCallbacks s - 1\<rparr>"
  have "cachedRecord ?s0 f = Some r"
    using inv by (simp add: cachedRecord_def)
  from callback_keeps_record [OF this assms(2,3)] more pending
  show "cachedRecord (runImmediate e s) f = Some r"
    by (simp add: runImmediate_def)
qed

lemma tick_keeps_record:
  "cachedRecord (startHandlingFileChanges e st) f = cachedRecord st f"
  "tagReads (startHandlingFileChanges e st) = tagReads st"
  by (simp_all add: startHandlingFileChanges_def cachedRecord_def notify_def handleNextFile_def
        Let_def split: option.splits)


subsection \<open>The rebuilt document\<close>

lemma writeItems_items:
  "fst (writeItems tbl ps (w, st)) = w @ List.map_filter (entryFor tbl) ps"
  by (induction ps arbitrary: w st)
     (simp_all add: entryFor_def map_filter_simps split: option.splits)

lemma writeItems_log:
  "logFile (snd (writeItems tbl ps (w, st))) = logFile st @ List.map_filter (excludedLine tbl) ps"
  by (induction ps arbitrary: w st)
     (simp_all add: excludedLine_def map_filter_simps writeToLog_def split: option.splits)

lemma foldl_removeRec:
  "foldl removeRec tbl rs = filter (\<lambda>x. file_path x \<notin> file_path ` set rs) tbl"
  by (induction rs arbitrary: tbl) (auto simp: removeRec_def intro: filter_cong)

lemma removeOrphans_eq:
  "removeOrphans ps tbl = filter (\<lambda>x. file_path x \<in> set ps) tbl"
  unfolding removeOrphans_def foldl_removeRec
  by (rule filter_cong) auto

lemma by_file_removeOrphans:
  "p \<notin> set ps \<Longrightarrow> by_file (removeOrphans ps tbl) p = None"
  by (auto simp: removeOrphans_eq by_file_def find_None_iff)

lemma finishBody_rebuild:
  assumes "fileTable st = Some tbl" and "filter dirty tbl \<noteq> []"
    and "outputIndexFails e = None"
  shows "indexFiles (snd (finishBody e st)) (getIndexPath e (watchPath (fileWatcher st)))
           = Some \<lparr> date = dateAtIndex e,
                    items = List.map_filter (entryFor tbl) (files (fileWatcher st)) \<rparr>"
    and "logFile (snd (finishBody e st))
           = logFile st @ List.map_filter (excludedLine tbl) (files (fileWatcher st))"
proof -
  obtain w s1 where wi: "writeItems tbl (files (fileWatcher st)) ([], saveDatabase st) = (w, s1)"
    by (cases "writeItems tbl (files (fileWatcher st)) ([], saveDatabase st)")
  have w: "w = List.map_filter (entryFor tbl) (files (fileWatcher st))"
    using writeItems_items [of tbl "files (fileWatcher st)" "[]" "saveDatabase st"] wi by simp
  have l: "logFile s1 = logFile st @ List.map_filter (excludedLine tbl) (files (fileWatcher st))"
    using writeItems_log [of tbl "files (fileWatcher st)" "[]" "saveDatabase st"] wi
    by (simp add: saveDatabase_def)
  have "fileWatcher (snd (writeItems tbl (files (fileWatcher st)) ([], saveDatabase st)))
          = fileWatcher (saveDatabase st)"
    by simp
  then have fw: "fileWatcher s1 = fileWatcher st"
    unfolding wi by (simp add: saveDatabase_def)
  show "indexFiles (snd (finishBody e st)) (getIndexPath e (watchPath (fileWatcher st)))
           = Some \<lparr> date = dateAtIndex e,
                    items = List.map_filter (entryFor tbl) (files (fileWatcher st)) \<rparr>"
    using assms wi w fw
    by (simp add: finishBody_def saveDatabase_def Let_def split: option.splits)
  show "logFile (snd (finishBody e st))
           = logFile st @ List.map_filter (excludedLine tbl) (files (fileWatcher st))"
    using assms wi l
    by (simp add: finishBody_def saveDatabase_def Let_def split: option.splits)
qed



subsection \<open>Finalization that rebuilds\<close>

lemma finish_outputs:
  "indexFiles (finishHandlingChanges e st) = indexFiles (snd (finishBody e st))"
  "statusFiles (finishHandlingChanges e st) = statusFiles (snd (finishBody e st))"
  "logFile (finishHandlingChanges e st) = logFile (snd (finishBody e st))"
  "fileTable (finishHandlingChanges e st) = fileTable (snd (finishBody e st))"
  "lokiFile (finishHandlingChanges e st) = lokiFile (snd (finishBody e st))"
  by (simp_all add: finishHandlingChanges_def notify_def Let_def split_beta split: option.splits)

lemma finishBody_complete:
  assumes "fileTable st = Some tbl" and "filter dirty tbl \<noteq> []"
    and "outputIndexFails e = None" and "writeStatusFails e = None"
  shows "fst (finishBody e st) = None"
    and "fileTable (snd (finishBody e st))
           = Some (removeOrphans (files (fileWatcher st)) (cleanDirty tbl (filter dirty tbl)))"
    and "lokiFile (snd (finishBody e st))
           = Some (Usable
               (removeOrphans (files (fileWatcher st)) (cleanDirty tbl (filter dirty tbl))))"
    and "statusFiles (snd (finishBody e st)) (getStatusPath e (watchPath (fileWatcher st)))
           = Some (dateAtStatus e)"
proof -
  obtain w s1 where wi: "writeItems tbl (files (fileWatcher st)) ([], saveDatabase st) = (w, s1)"
    by (cases "writeItems tbl (files (fileWatcher st)) ([], saveDatabase st)")
  have "fileWatcher (snd (writeItems tbl (files (fileWatcher st)) ([], saveDatabase st)))
          = fileWatcher (saveDatabase st)"
    by simp
  then have fw: "fileWatcher s1 = fileWatcher st"
    unfolding wi by (simp add: saveDatabase_def)
  show "fst (finishBody e st) = None"
    using assms wi by (simp add: finishBody_def saveDatabase_def Let_def)
  show "fileTable (snd (finishBody e st))
           = Some (removeOrphans (files (fileWatcher st)) (cleanDirty tbl (filter dirty tbl)))"
    using assms wi by (simp add: finishBody_def saveDatabase_def Let_def)
  show "lokiFile (snd (finishBody e st))
           = Some (Usable
               (removeOrphans (files (fileWatcher st)) (cleanDirty tbl (filter dirty tbl))))"
    using assms wi by (simp add: finishBody_def saveDatabase_def Let_def)
  show "statusFiles (snd (finishBody e st)) (getStatusPath e (watchPath (fileWatcher st)))
           = Some (dateAtStatus e)"
    using assms wi fw by (simp add: finishBody_def saveDatabase_def Let_def)
qed


subsection \<open>A step that throws\<close>

lemma thrown_step_is_recorded:
  assumes "pathExists e f = Inr True" and "fileTable s = Some tbl"
    and "stepThrows e tbl f ex"
  shows "map_option (\<lambda>r. (file_path r, dirty r, tagData r)) (cachedRecord (tryFile e f s) f)
           = Some (f, False, None)"
    and "map_option mtime (cachedRecord (tryFile e f s) f) = Some (mtimeIfKnown e tbl f)"
    and "logFile (tryFile e f s)
           = logFile s @ [f @ (if exType ex = Some ''tagfail'' then '' tag read fail.''
                               else '' could not be read, is it properly tagged?'')
                            @ '' : '' @ exJson ex]"
    and "errorsOccurred (tryFile e f s)"
    and "uncaught (tryFile e f s) = uncaught s"
proof -
  have all: "map_option (\<lambda>r. (file_path r, dirty r, tagData r)) (cachedRecord (tryFile e f s) f)
           = Some (f, False, None)
     \<and> map_option mtime (cachedRecord (tryFile e f s) f) = Some (mtimeIfKnown e tbl f)
     \<and> logFile (tryFile e f s)
           = logFile s @ [f @ (if exType ex = Some ''tagfail'' then '' tag read fail.''
                               else '' could not be read, is it properly tagged?'')
                            @ '' : '' @ exJson ex]
     \<and> errorsOccurred (tryFile e f s)
     \<and> uncaught (tryFile e f s) = uncaught s"
  proof (cases "by_file tbl f")
    case None
    with assms show ?thesis
      by (simp add: stepThrows_def mtimeIfKnown_def tryFile_def readAndStore_def catchBlock_def
            writeToLog_def cachedRecord_def by_file_insertRec Let_def)
  next
    case (Some c)
    have path: "file_path c = f"
      using Some by (rule by_file_path)
    have stored: "by_file (updateRec tbl (c\<lparr>dirty := False, mtime := m, tagData := None\<rparr>)) f
        = Some (c\<lparr>dirty := False, mtime := m, tagData := None\<rparr>)" for m
      using by_file_updateRec_same [of tbl "c\<lparr>dirty := False, mtime := m, tagData := None\<rparr>" c]
        Some path by simp
    show ?thesis
    proof (cases "statMtime e f")
      case (Inl x)
      with assms Some path stored [of "[]"] show ?thesis
        by (simp add: stepThrows_def mtimeIfKnown_def tryFile_def catchBlock_def
              writeToLog_def cachedRecord_def Let_def)
    next
      case (Inr m)
      with assms Some path stored [of m] show ?thesis
        by (simp add: stepThrows_def mtimeIfKnown_def tryFile_def readAndStore_def
              catchBlock_def writeToLog_def cachedRecord_def Let_def)
    qed
  qed
  from all show "map_option (\<lambda>r. (file_path r, dirty r, tagData r))
      (cachedRecord (tryFile e f s) f) = Some (f, False, None)" by blast
  from all show "map_option mtime (cachedRecord (tryFile e f s) f)
      = Some (mtimeIfKnown e tbl f)" by blast
  from all show "logFile (tryFile e f s)
           = logFile s @ [f @ (if exType ex = Some ''tagfail'' then '' tag read fail.''
                               else '' could not be read, is it properly tagged?'')
                            @ '' : '' @ exJson ex]" by blast
  from all show "errorsOccurred (tryFile e f s)" by blast
  from all show "uncaught (tryFile e f s) = uncaught s" by blast
qed


subsection \<open>A run over a settled cache\<close>

text \<open>
  When no record is dirty and every path of the watcher's file set exists and is cached
  with its current modification-time string, a tick and the run it starts read no tag
  and rebuild nothing: the collection, the index artifacts and the status markers are as
  before.
\<close>

lemma keyAt_member: "keyAt ks i = Some g \<Longrightarrow> g \<in> set ks"
  by (auto simp: keyAt_def split: if_splits)

lemma finish_without_dirty:
  assumes "fileTable s = Some tbl" and "\<forall>r \<in> set tbl. \<not> dirty r"
  shows "finishHandlingChanges e s
       = (notify (onIndexingDone s) IndexingDone (saveDatabase s))\<lparr>busy := False\<rparr>"
proof -
  have "filter dirty tbl = []"
    using assms(2) by (simp add: filter_empty_conv)
  then show ?thesis
    using assms(1)
    by (simp add: finishHandlingChanges_def finishBody_def saveDatabase_def notify_def Let_def)
qed

lemma settled_run_changes_nothing:
  assumes table: "fileTable st = Some tbl" and clean: "\<forall>r \<in> set tbl. \<not> dirty r"
    and settled: "\<forall>f \<in> set (files (fileWatcher st)).
           pathExists e f = Inr True
         \<and> (\<exists>r. by_file tbl f = Some r \<and> statMtime e f = Inr (mtime r))"
    and idle: "pendingCallbacks st = 0"
  shows "fileTable (tickAndRun e st) = Some tbl
       \<and> tagReads (tickAndRun e st) = tagReads st
       \<and> indexFiles (tickAndRun e st) = indexFiles st
       \<and> statusFiles (tickAndRun e st) = statusFiles st"
proof -
  let ?I = "\<lambda>s :: indexer. fileTable s = Some tbl \<and> tagReads s = tagReads st
               \<and> indexFiles s = indexFiles st \<and> statusFiles s = statusFiles st
               \<and> (pendingCallbacks s \<noteq> 0 \<longrightarrow> set (fileKeys s) \<subseteq> set (files (fileWatcher st)))"
  have start: "?I (startHandlingFileChanges e st)"
    using table idle
    by (simp add: startHandlingFileChanges_def notify_def handleNextFile_def Let_def
             split: option.splits)
  have "?I (runQueue e (startHandlingFileChanges e st))"
  proof (rule runQueue_rule [where I = ?I, OF start])
    fix s :: indexer
    assume inv: "?I s" and pending: "pendingCallbacks s \<noteq> 0"
    let ?s1 = "s\<lparr>pendingCallbacks := pendingCallbacks s - Suc 0,
                   processedCount := processedCount s + 1\<rparr>"
    have t1: "fileTable ?s1 = Some tbl"
      using inv by simp
    show "?I (runImmediate e s)"
    proof (cases "processedCount s + 1 < toProcessCount s")
      case False
      then have "runImmediate e s = finishHandlingChanges e ?s1"
        using pending by (simp add: runImmediate_def callback_def Let_def)
      also have "\<dots> = (notify (onIndexingDone ?s1) IndexingDone (saveDatabase ?s1))
                          \<lparr>busy := False\<rparr>"
        by (rule finish_without_dirty [OF t1 clean])
      finally show ?thesis
        using inv pending by (simp add: notify_def saveDatabase_def)
    next
      case True
      have same: "(case keyAt (fileKeys ?s1) (processedCount ?s1) of
                     Some f \<Rightarrow> tryFile e f ?s1 | None \<Rightarrow> ?s1) = ?s1"
      proof (cases "keyAt (fileKeys ?s1) (processedCount ?s1)")
        case None
        then show ?thesis by simp
      next
        case (Some g)
        then have "g \<in> set (files (fileWatcher st))"
          using keyAt_member [OF Some] inv pending by auto
        with settled obtain r where "pathExists e g = Inr True" "by_file tbl g = Some r"
          "statMtime e g = Inr (mtime r)"
          by blast
        then have "tryFile e g ?s1 = ?s1"
          using t1 tryFile_unchanged [of ?s1 g r e] by (simp add: cachedRecord_def)
        with Some show ?thesis by simp
      qed
      have "runImmediate e s
          = handleNextFile (case keyAt (fileKeys ?s1) (processedCount ?s1) of
                              Some f \<Rightarrow> tryFile e f ?s1 | None \<Rightarrow> ?s1)"
        using True pending by (simp add: runImmediate_def callback_def Let_def)
      then have "runImmediate e s = handleNextFile ?s1"
        unfolding same .
      then show ?thesis
        using inv pending by (simp add: handleNextFile_def)
    qed
  qed
  then show ?thesis
    by (simp add: tickAndRun_def)
qed



subsection \<open>The records of a path over a whole run\<close>

lemma cachedRecord_recordsFor:
  "cachedRecord s f = (case recordsFor s f of [] \<Rightarrow> None | x # _ \<Rightarrow> Some x)"
proof (cases "fileTable s")
  case None
  then show ?thesis by (simp add: cachedRecord_def recordsFor_def)
next
  case (Some tbl)
  have "find (\<lambda>r. file_path r = f) tbl
      = (case filter (\<lambda>x. file_path x = f) tbl of [] \<Rightarrow> None | x # _ \<Rightarrow> Some x)"
    by (induction tbl) simp_all
  with Some show ?thesis by (simp add: cachedRecord_def recordsFor_def by_file_def)
qed

lemma filter_insertRec:
  "file_path r \<noteq> f
   \<Longrightarrow> filter (\<lambda>x. file_path x = f) (insertRec tbl r) = filter (\<lambda>x. file_path x = f) tbl"
  by (simp add: insertRec_def)

lemma filter_updateRec:
  "file_path r \<noteq> f
   \<Longrightarrow> filter (\<lambda>x. file_path x = f) (updateRec tbl r) = filter (\<lambda>x. file_path x = f) tbl"
  by (induction tbl) (simp_all add: updateRec_def)

lemma readAndStore_records:
  assumes "file_path c \<noteq> f"
  shows "recordsFor (readAndStore e g c fs i s) f = recordsFor s f"
  using assms
  by (auto simp: readAndStore_def catchBlock_def recordsFor_def notify_def writeToLog_def
                 Let_def filter_insertRec filter_updateRec split: option.splits sum.splits)

lemma tryFile_records:
  assumes "g \<noteq> f"
  shows "recordsFor (tryFile e g s) f = recordsFor s f"
proof -
  have caught: "recordsFor (catchBlock g ex c fs i s) f = recordsFor s f"
    if "\<And>r. c = Some r \<Longrightarrow> file_path r \<noteq> f" for ex c fs i
    using that
    by (auto simp: catchBlock_def recordsFor_def writeToLog_def Let_def filter_insertRec
                   filter_updateRec split: option.splits)
  show ?thesis
  proof (cases "pathExists e g")
    case (Inl ex)
    then show ?thesis using caught [of None] by (simp add: tryFile_def)
  next
    case (Inr b)
    show ?thesis
    proof (cases b)
      case False
      with Inr show ?thesis by (simp add: tryFile_def recordsFor_def)
    next
      case True
      show ?thesis
      proof (cases "fileTable s")
        case None
        with Inr True show ?thesis using caught [of None] by (simp add: tryFile_def)
      next
        case (Some tbl)
        show ?thesis
        proof (cases "by_file tbl g")
          case None
          with Inr True Some show ?thesis
            using readAndStore_records
              [of "\<lparr> file_path = g, dirty = False, mtime = [], tagData = None,
                      isValid = None \<rparr>" f e g None True s] assms
            by (simp add: tryFile_def)
        next
          case c: (Some c)
          have path: "file_path c \<noteq> f"
            using by_file_path [OF c] assms by simp
          show ?thesis
          proof (cases "statMtime e g")
            case (Inl ex)
            with Inr True Some c show ?thesis
              using caught [of "Some c" ex None False] path by (simp add: tryFile_def)
          next
            case m: (Inr m)
            with Inr True Some c show ?thesis
              using readAndStore_records [OF path, of e g "Some m" False s]
              by (simp add: tryFile_def)
          qed
        qed
      qed
    qed
  qed
qed

lemma tryFile_keeps_file:
  "g \<noteq> f \<Longrightarrow> f \<in> set (files (fileWatcher s))
   \<Longrightarrow> f \<in> set (files (fileWatcher (tryFile e g s)))"
  by (simp add: tryFile_def remove_def split: option.splits sum.splits bool.splits)

lemma cleanDirty_records:
  "\<forall>d \<in> set ds. file_path d \<noteq> f
   \<Longrightarrow> filter (\<lambda>x. file_path x = f) (cleanDirty tbl ds) = filter (\<lambda>x. file_path x = f) tbl"
  unfolding cleanDirty_def
  by (induction ds arbitrary: tbl) (simp_all add: filter_updateRec)

lemma removeOrphans_records:
  "f \<in> set ps
   \<Longrightarrow> filter (\<lambda>x. file_path x = f) (removeOrphans ps tbl) = filter (\<lambda>x. file_path x = f) tbl"
  unfolding removeOrphans_eq
  by (induction tbl) auto

lemma finishBody_table:
  "fileTable (snd (finishBody e s)) = fileTable s
   \<or> (\<exists>tbl. fileTable s = Some tbl
         \<and> fileTable (snd (finishBody e s))
             = Some (removeOrphans (files (fileWatcher s)) (cleanDirty tbl (filter dirty tbl))))"
  by (simp add: finishBody_def saveDatabase_def Let_def split_beta split: option.splits)

lemma finish_records:
  assumes "\<forall>x \<in> set (recordsFor s f). \<not> dirty x" and "f \<in> set (files (fileWatcher s))"
  shows "recordsFor (finishHandlingChanges e s) f = recordsFor s f"
proof -
  from finishBody_table [of e s] show ?thesis
  proof
    assume "fileTable (snd (finishBody e s)) = fileTable s"
    then show ?thesis by (simp add: recordsFor_def finish_outputs)
  next
    assume "\<exists>tbl. fileTable s = Some tbl
         \<and> fileTable (snd (finishBody e s))
             = Some (removeOrphans (files (fileWatcher s)) (cleanDirty tbl (filter dirty tbl)))"
    then obtain tbl where t: "fileTable s = Some tbl"
      and t': "fileTable (snd (finishBody e s))
             = Some (removeOrphans (files (fileWatcher s)) (cleanDirty tbl (filter dirty tbl)))"
      by blast
    have "\<forall>d \<in> set (filter dirty tbl). file_path d \<noteq> f"
      using assms(1) t by (auto simp: recordsFor_def)
    then show ?thesis
      using t t' assms(2)
      by (simp add: recordsFor_def finish_outputs removeOrphans_records cleanDirty_records)
  qed
qed


lemma recordsFor_counters [simp]:
  "recordsFor (s\<lparr>pendingCallbacks := n\<rparr>) f = recordsFor s f"
  "recordsFor (s\<lparr>processedCount := k\<rparr>) f = recordsFor s f"
  "recordsFor (handleNextFile s) f = recordsFor s f"
  by (simp_all add: recordsFor_def handleNextFile_def)

lemma tick_keeps_records:
  "recordsFor (startHandlingFileChanges e st) f = recordsFor st f"
  "files (fileWatcher (startHandlingFileChanges e st)) = files (fileWatcher st)"
  by (simp_all add: startHandlingFileChanges_def recordsFor_def notify_def handleNextFile_def
        Let_def split: option.splits)

lemma run_keeps_settled_record:
  assumes cached: "cachedRecord st f = Some r" and "pathExists e f = Inr True"
    and "statMtime e f = Inr (mtime r)"
    and clean: "\<forall>x \<in> set (recordsFor st f). \<not> dirty x"
    and tracked: "f \<in> set (files (fileWatcher st))"
  shows "cachedRecord (runQueue e st) f = Some r"
proof -
  let ?J = "\<lambda>s :: indexer. recordsFor s f = recordsFor st f \<and> f \<in> set (files (fileWatcher s))"
  have "?J (runQueue e st)"
  proof (rule runQueue_rule [where I = ?J])
    show "?J st" using tracked by simp
  next
    fix s :: indexer
    assume inv: "?J s" and pending: "pendingCallbacks s \<noteq> 0"
    let ?s1 = "s\<lparr>pendingCallbacks := pendingCallbacks s - Suc 0,
                   processedCount := processedCount s + 1\<rparr>"
    have r1: "recordsFor ?s1 f = recordsFor st f" and f1: "f \<in> set (files (fileWatcher ?s1))"
      using inv by simp_all
    have c1: "cachedRecord ?s1 f = Some r"
      using cached r1 by (simp add: cachedRecord_recordsFor)
    show "?J (runImmediate e s)"
    proof (cases "processedCount s + 1 < toProcessCount s")
      case False
      then have "runImmediate e s = finishHandlingChanges e ?s1"
        using pending by (simp add: runImmediate_def callback_def Let_def)
      moreover have "recordsFor (finishHandlingChanges e ?s1) f = recordsFor ?s1 f"
        using finish_records [of ?s1 f e] clean r1 f1 by simp
      ultimately show ?thesis
        using r1 f1 by simp
    next
      case True
      let ?s2 = "case keyAt (fileKeys ?s1) (processedCount ?s1) of
                   Some g \<Rightarrow> tryFile e g ?s1 | None \<Rightarrow> ?s1"
      have step: "recordsFor ?s2 f = recordsFor st f \<and> f \<in> set (files (fileWatcher ?s2))"
      proof (cases "keyAt (fileKeys ?s1) (processedCount ?s1)")
        case None
        with r1 f1 show ?thesis by simp
      next
        case (Some g)
        show ?thesis
        proof (cases "g = f")
          case True
          with Some tryFile_unchanged [OF c1 assms(2,3)] r1 f1 show ?thesis by simp
        next
          case False
          with Some tryFile_records [OF False, of e ?s1] tryFile_keeps_file [OF False f1, of e]
            r1 show ?thesis by simp
        qed
      qed
      have "runImmediate e s = handleNextFile ?s2"
        using True pending by (simp add: runImmediate_def callback_def Let_def)
      with step show ?thesis
        by (simp add: handleNextFile_def recordsFor_def)
    qed
  qed
  then show ?thesis
    using cached by (simp add: cachedRecord_recordsFor)
qed


subsection \<open>Unfolding the model on concrete inputs\<close>

lemmas step_defs =
  startHandlingFileChanges_def handleNextFile_def runImmediate_def callback_def keyAt_def
  tryFile_def readAndStore_def catchBlock_def finishHandlingChanges_def finishBody_def
  saveDatabase_def writeToLog_def notify_def by_file_def insertRec_def updateRec_def
  removeRec_def cleanDirty_def removeOrphans_def remove_def isTagValid_def present_def
  typeError_def Let_def

lemmas world_defs =
  tickAndRun_def start_def constructor_def createCollection_def loadLokiFromFile_def
  world_def musicWatcher_def songTag_def songRecord_def cachedRecord_def recordsFor_def

section \<open>Statements of the specification\<close>

text \<open>
  C1. A file of the snapshot that has a cached record, exists on disk and whose
  modification-time string equals the cached one is skipped: its step changes nothing at
  all, in any state that holds that record; over a tick and the whole run it starts, the
  tag reader is not called for that path; when the last path of the snapshot has had its
  step, the cache holds the same record for it; and so it does after finalization, at
  the end of the run, for a path of the watcher's file set whose record was not waiting
  for a rebuild.
\<close>

theorem unchanged_file_is_skipped:
  assumes "cachedRecord st f = Some r" and "pathExists e f = Inr True"
    and "statMtime e f = Inr (mtime r)"
  shows "(\<forall>s. cachedRecord s f = Some r \<longrightarrow> tryFile e f s = s)
       \<and> count_list (tagReads (tickAndRun e st)) f = count_list (tagReads st) f
       \<and> cachedRecord (scanFiles e (startHandlingFileChanges e st)) f = Some r
       \<and> (f \<in> set (files (fileWatcher st)) \<and> (\<forall>x \<in> set (recordsFor st f). \<not> dirty x)
            \<longrightarrow> cachedRecord (tickAndRun e st) f = Some r)"
proof -
  have tick: "cachedRecord (startHandlingFileChanges e st) f = Some r"
    using assms(1) by (simp add: tick_keeps_record)
  have skip: "\<forall>s. cachedRecord s f = Some r \<longrightarrow> tryFile e f s = s"
    using tryFile_unchanged [OF _ assms(2,3)] by blast
  have reads: "count_list (tagReads (tickAndRun e st)) f = count_list (tagReads st) f"
    using run_keeps_tagReads [OF tick assms(2,3)] by (simp add: tickAndRun_def tick_keeps_record)
  have scan: "cachedRecord (scanFiles e (startHandlingFileChanges e st)) f = Some r"
    by (rule scan_keeps_record [OF tick assms(2,3)])
  have whole: "cachedRecord (tickAndRun e st) f = Some r"
    if "f \<in> set (files (fileWatcher st))" and "\<forall>x \<in> set (recordsFor st f). \<not> dirty x"
    using run_keeps_settled_record [OF tick assms(2,3)] that
    by (simp add: tickAndRun_def tick_keeps_records)
  show ?thesis
    using skip reads scan whole by blast
qed

theorem unchanged_file_is_skipped_witness:
  "cachedRecord (start (constructor (musicWatcher [''/m/a.mp3'', ''/m/b.mp3''])
                          (Some (Usable [songRecord ''/m/a.mp3''])))) ''/m/a.mp3''
     = Some (songRecord ''/m/a.mp3'')
   \<and> tagReads (tickAndRun (world (\<lambda>_. Inr True) (\<lambda>_. Inr songTag) 100 100)
        (start (constructor (musicWatcher [''/m/a.mp3'', ''/m/b.mp3''])
                  (Some (Usable [songRecord ''/m/a.mp3'']))))) = [''/m/b.mp3'']
   \<and> count_list (tagReads (tickAndRun (world (\<lambda>_. Inr True) (\<lambda>_. Inr songTag) 100 100)
        (start (constructor (musicWatcher [''/m/a.mp3'', ''/m/b.mp3''])
                  (Some (Usable [songRecord ''/m/a.mp3'']))))))  ''/m/a.mp3'' = 0
   \<and> cachedRecord (scanFiles (world (\<lambda>_. Inr True) (\<lambda>_. Inr songTag) 100 100)
        (startHandlingFileChanges (world (\<lambda>_. Inr True) (\<lambda>_. Inr songTag) 100 100)
          (start (constructor (musicWatcher [''/m/a.mp3'', ''/m/b.mp3''])
                    (Some (Usable [songRecord ''/m/a.mp3'']))))))  ''/m/a.mp3''
     = Some (songRecord ''/m/a.mp3'')
   \<and> cachedRecord (tickAndRun (world (\<lambda>_. Inr True) (\<lambda>_. Inr songTag) 100 100)
        (start (constructor (musicWatcher [''/m/a.mp3'', ''/m/b.mp3''])
                  (Some (Usable [songRecord ''/m/a.mp3'']))))) ''/m/a.mp3''
     = Some (songRecord ''/m/a.mp3'')"
proof -
  let ?st = "start (constructor (musicWatcher [''/m/a.mp3'', ''/m/b.mp3''])
                          (Some (Usable [songRecord ''/m/a.mp3''])))"
  let ?e = "world (\<lambda>_. Inr True) (\<lambda>_. Inr songTag) 100 100"
  have c: "cachedRecord ?st ''/m/a.mp3'' = Some (songRecord ''/m/a.mp3'')"
    by (simp add: world_defs by_file_def)
  have p: "pathExists ?e ''/m/a.mp3'' = Inr True"
    by (simp add: world_def)
  have m: "statMtime ?e ''/m/a.mp3'' = Inr (mtime (songRecord ''/m/a.mp3''))"
    by (simp add: world_def songRecord_def)
  have reads: "tagReads (tickAndRun ?e ?st) = [''/m/b.mp3'']"
    by (simp add: world_defs step_defs runQueue.simps)
  have z: "tagReads ?st = []"
    by (simp add: world_defs)
  have t: "''/m/a.mp3'' \<in> set (files (fileWatcher ?st))"
    "\<forall>x \<in> set (recordsFor ?st ''/m/a.mp3''). \<not> dirty x"
    by (simp_all add: world_defs)
  have count: "count_list (tagReads (tickAndRun ?e ?st)) ''/m/a.mp3'' = 0"
    using unchanged_file_is_skipped [OF c p m] z by simp
  have scan: "cachedRecord (scanFiles ?e (startHandlingFileChanges ?e ?st)) ''/m/a.mp3''
      = Some (songRecord ''/m/a.mp3'')"
    using unchanged_file_is_skipped [OF c p m] by blast
  have whole: "cachedRecord (tickAndRun ?e ?st) ''/m/a.mp3'' = Some (songRecord ''/m/a.mp3'')"
    using unchanged_file_is_skipped [OF c p m] t by blast
  show ?thesis
    by (intro conjI c reads count scan whole)
qed

text \<open>
  C3. When a record is dirty at finalization and the document can be written, the index
  artifact written for the watch root has the build date and, in the order of the
  watcher's current file set, one entry (album, artist, name, relative path) for each of
  its paths whose cached record has tag data present that passes validation, and no
  other entry; the paths whose record has no tag data or invalid tag data each get a
  line in the error log instead.
\<close>

theorem rebuild_is_full_snapshot:
  assumes "fileTable st = Some tbl" and "\<exists>r \<in> set tbl. dirty r"
    and "outputIndexFails e = None"
  shows "indexFiles (finishHandlingChanges e st) (getIndexPath e (watchPath (fileWatcher st)))
           = Some \<lparr> date = dateAtIndex e,
                    items = List.map_filter (entryFor tbl) (files (fileWatcher st)) \<rparr>
       \<and> logFile (finishHandlingChanges e st)
           = logFile st @ List.map_filter (excludedLine tbl) (files (fileWatcher st))"
proof -
  have "filter dirty tbl \<noteq> []"
    using assms(2) by (simp add: filter_empty_conv)
  from finishBody_rebuild [OF assms(1) this assms(3)] show ?thesis
    by (simp add: finish_outputs)
qed


theorem rebuild_is_full_snapshot_witness:
  "indexFiles
     (finishHandlingChanges (world (\<lambda>_. Inr True) (\<lambda>_. Inr songTag) 100 101)
        (start (constructor
           (musicWatcher [''/m/a.mp3'', ''/m/b.mp3'', ''/m/c.mp3'', ''/m/d.mp3'', ''/m/e.mp3''])
           (Some (Usable [songRecord ''/m/a.mp3'',
                          (songRecord ''/m/b.mp3'')\<lparr>dirty := True\<rparr>,
                          (songRecord ''/m/c.mp3'')\<lparr>tagData := None\<rparr>,
                          (songRecord ''/m/d.mp3'')\<lparr>tagData := Some
                             \<lparr> name = Some ''Song'', album = Some ''Record'', track = None,
                               artist = None, clippedPath = ''/d.mp3'' \<rparr>\<rparr>])))))
     ''/m/index.xml''
     = Some \<lparr> date = 100,
              items = [\<lparr> item_album = Some ''Record'', item_artist = Some ''Band'',
                          item_name = Some ''Song'', item_path = ''/a.mp3'' \<rparr>,
                       \<lparr> item_album = Some ''Record'', item_artist = Some ''Band'',
                          item_name = Some ''Song'', item_path = ''/b.mp3'' \<rparr>] \<rparr>
   \<and> logFile
     (finishHandlingChanges (world (\<lambda>_. Inr True) (\<lambda>_. Inr songTag) 100 101)
        (start (constructor
           (musicWatcher [''/m/a.mp3'', ''/m/b.mp3'', ''/m/c.mp3'', ''/m/d.mp3'', ''/m/e.mp3''])
           (Some (Usable [songRecord ''/m/a.mp3'',
                          (songRecord ''/m/b.mp3'')\<lparr>dirty := True\<rparr>,
                          (songRecord ''/m/c.mp3'')\<lparr>tagData := None\<rparr>,
                          (songRecord ''/m/d.mp3'')\<lparr>tagData := Some
                             \<lparr> name = Some ''Song'', album = Some ''Record'', track = None,
                               artist = None, clippedPath = ''/d.mp3'' \<rparr>\<rparr>])))))
     = [''/m/c.mp3 has no tag data'', ''/d.mp3 isn'' @ [CHR 0x27] @ ''t properly tagged'']"
proof -
  let ?tbl = "[songRecord ''/m/a.mp3'',
               (songRecord ''/m/b.mp3'')\<lparr>dirty := True\<rparr>,
               (songRecord ''/m/c.mp3'')\<lparr>tagData := None\<rparr>,
               (songRecord ''/m/d.mp3'')\<lparr>tagData := Some
                  \<lparr> name = Some ''Song'', album = Some ''Record'', track = None,
                    artist = None, clippedPath = ''/d.mp3'' \<rparr>\<rparr>]"
  let ?st = "start (constructor
           (musicWatcher [''/m/a.mp3'', ''/m/b.mp3'', ''/m/c.mp3'', ''/m/d.mp3'', ''/m/e.mp3''])
           (Some (Usable ?tbl)))"
  let ?e = "world (\<lambda>_. Inr True) (\<lambda>_. Inr songTag) 100 101"
  have t: "fileTable ?st = Some ?tbl"
    by (simp add: world_defs)
  have d: "\<exists>r \<in> set ?tbl. dirty r"
    by (simp add: songRecord_def)
  have o: "outputIndexFails ?e = None"
    by (simp add: world_def)
  have w: "files (fileWatcher ?st)
      = [''/m/a.mp3'', ''/m/b.mp3'', ''/m/c.mp3'', ''/m/d.mp3'', ''/m/e.mp3'']"
    "watchPath (fileWatcher ?st) = ''/m/''" "logFile ?st = []"
    by (simp_all add: world_defs)
  have e: "getIndexPath ?e ''/m/'' = ''/m/index.xml''" "dateAtIndex ?e = 100"
    by (simp_all add: world_def)
  have items: "List.map_filter (entryFor ?tbl)
        [''/m/a.mp3'', ''/m/b.mp3'', ''/m/c.mp3'', ''/m/d.mp3'', ''/m/e.mp3'']
      = [\<lparr> item_album = Some ''Record'', item_artist = Some ''Band'',
            item_name = Some ''Song'', item_path = ''/a.mp3'' \<rparr>,
         \<lparr> item_album = Some ''Record'', item_artist = Some ''Band'',
            item_name = Some ''Song'', item_path = ''/b.mp3'' \<rparr>]"
    by (simp add: map_filter_simps entryFor_def by_file_def songRecord_def isTagValid_def
          present_def)
  have lines: "List.map_filter (excludedLine ?tbl)
        [''/m/a.mp3'', ''/m/b.mp3'', ''/m/c.mp3'', ''/m/d.mp3'', ''/m/e.mp3'']
      = [''/m/c.mp3 has no tag data'', ''/d.mp3 isn'' @ [CHR 0x27] @ ''t properly tagged'']"
    by (simp add: map_filter_simps excludedLine_def by_file_def songRecord_def isTagValid_def
          present_def)
  show ?thesis
    using rebuild_is_full_snapshot [OF t d o]
    unfolding w e items lines by simp
qed


text \<open>
  C4, as the code has it. Orphans are removed only by a finalization that rebuilds. When
  a record is dirty and both writes succeed, finalization leaves no cached record, in
  memory or in the cache file, for a path that is absent from the watcher's current file
  set, and the entries of the rebuilt artifact are those of the paths of that file set.
  When no record is dirty, finalization ends before the orphans are looked for and the
  collection stays as it is.
\<close>

theorem orphans_removed_only_on_rebuild:
  assumes "fileTable st = Some tbl" and "p \<notin> set (files (fileWatcher st))"
  shows "((\<exists>r \<in> set tbl. dirty r) \<and> outputIndexFails e = None \<and> writeStatusFails e = None
            \<longrightarrow> cachedRecord (finishHandlingChanges e st) p = None
              \<and> lokiFile (finishHandlingChanges e st)
                  = map_option Usable (fileTable (finishHandlingChanges e st))
              \<and> map_option items
                  (indexFiles (finishHandlingChanges e st)
                     (getIndexPath e (watchPath (fileWatcher st))))
                  = Some (List.map_filter (entryFor tbl)
                            (filter (\<lambda>q. q \<noteq> p) (files (fileWatcher st)))))
       \<and> (\<not> (\<exists>r \<in> set tbl. dirty r)
            \<longrightarrow> fileTable (finishHandlingChanges e st) = Some tbl)"
proof -
  have keep: "filter (\<lambda>q. q \<noteq> p) (files (fileWatcher st)) = files (fileWatcher st)"
    using assms(2) by (induction "files (fileWatcher st)") (auto simp: filter_id_conv)
  have rebuilt: "cachedRecord (finishHandlingChanges e st) p = None
      \<and> lokiFile (finishHandlingChanges e st)
          = map_option Usable (fileTable (finishHandlingChanges e st))
      \<and> map_option items
          (indexFiles (finishHandlingChanges e st) (getIndexPath e (watchPath (fileWatcher st))))
          = Some (List.map_filter (entryFor tbl) (files (fileWatcher st)))"
    if d: "\<exists>r \<in> set tbl. dirty r" and o: "outputIndexFails e = None"
      and w: "writeStatusFails e = None"
  proof -
    have ne: "filter dirty tbl \<noteq> []"
      using d by (simp add: filter_empty_conv)
    show ?thesis
      using finishBody_complete(2,3) [OF assms(1) ne o w] finishBody_rebuild(1) [OF assms(1) ne o]
        by_file_removeOrphans [OF assms(2)]
      by (simp add: finish_outputs cachedRecord_def)
  qed
  have idle: "fileTable (finishHandlingChanges e st) = Some tbl"
    if "\<not> (\<exists>r \<in> set tbl. dirty r)"
  proof -
    have "filter dirty tbl = []"
      using that by (simp add: filter_empty_conv)
    then show ?thesis
      using assms(1) by (simp add: finish_outputs finishBody_def saveDatabase_def Let_def)
  qed
  show ?thesis
    using rebuilt idle keep by simp
qed

theorem orphan_survives_idle_run_counterexample:
  "''/m/a.mp3'' \<notin> set (files (musicWatcher [''/m/b.mp3'']))
   \<and> cachedRecord
       (tickAndRun (world (\<lambda>_. Inr True) (\<lambda>_. Inr songTag) 100 101)
          (start (constructor (musicWatcher [''/m/b.mp3''])
                    (Some (Usable [songRecord ''/m/a.mp3'', songRecord ''/m/b.mp3''])))))
       ''/m/a.mp3''
     = Some (songRecord ''/m/a.mp3'')
   \<and> pendingCallbacks
       (tickAndRun (world (\<lambda>_. Inr True) (\<lambda>_. Inr songTag) 100 101)
          (start (constructor (musicWatcher [''/m/b.mp3''])
                    (Some (Usable [songRecord ''/m/a.mp3'', songRecord ''/m/b.mp3'']))))) = 0
   \<and> \<not> busy
       (tickAndRun (world (\<lambda>_. Inr True) (\<lambda>_. Inr songTag) 100 101)
          (start (constructor (musicWatcher [''/m/b.mp3''])
                    (Some (Usable [songRecord ''/m/a.mp3'', songRecord ''/m/b.mp3''])))))"
  by (simp add: world_defs step_defs runQueue.simps)


theorem orphans_removed_only_on_rebuild_witness:
  "cachedRecord
     (finishHandlingChanges (world (\<lambda>_. Inr True) (\<lambda>_. Inr songTag) 100 101)
        (start (constructor (musicWatcher [''/m/b.mp3''])
           (Some (Usable [songRecord ''/m/a.mp3'',
                          (songRecord ''/m/b.mp3'')\<lparr>dirty := True\<rparr>])))))
     ''/m/a.mp3'' = None
   \<and> lokiFile
     (finishHandlingChanges (world (\<lambda>_. Inr True) (\<lambda>_. Inr songTag) 100 101)
        (start (constructor (musicWatcher [''/m/b.mp3''])
           (Some (Usable [songRecord ''/m/a.mp3'',
                          (songRecord ''/m/b.mp3'')\<lparr>dirty := True\<rparr>])))))
     = Some (Usable [songRecord ''/m/b.mp3''])
   \<and> fileTable
     (finishHandlingChanges (world (\<lambda>_. Inr True) (\<lambda>_. Inr songTag) 100 101)
        (start (constructor (musicWatcher [''/m/b.mp3''])
           (Some (Usable [songRecord ''/m/a.mp3'', songRecord ''/m/b.mp3''])))))
     = Some [songRecord ''/m/a.mp3'', songRecord ''/m/b.mp3'']"
proof -
  let ?e = "world (\<lambda>_. Inr True) (\<lambda>_. Inr songTag) 100 101"
  let ?dirty = "[songRecord ''/m/a.mp3'', (songRecord ''/m/b.mp3'')\<lparr>dirty := True\<rparr>]"
  let ?clean = "[songRecord ''/m/a.mp3'', songRecord ''/m/b.mp3'']"
  let ?st = "\<lambda>tbl. start (constructor (musicWatcher [''/m/b.mp3'']) (Some (Usable tbl)))"
  have t: "fileTable (?st tbl) = Some tbl" for tbl
    by (simp add: world_defs)
  have p: "''/m/a.mp3'' \<notin> set (files (fileWatcher (?st tbl)))" for tbl
    by (simp add: world_defs)
  have d: "\<exists>r \<in> set ?dirty. dirty r" "\<not> (\<exists>r \<in> set ?clean. dirty r)"
    by (simp_all add: songRecord_def)
  have e: "outputIndexFails ?e = None" "writeStatusFails ?e = None"
    by (simp_all add: world_def)
  have l: "lokiFile (finishHandlingChanges ?e (?st ?dirty)) = Some (Usable [songRecord ''/m/b.mp3''])"
    by (simp add: world_defs step_defs)
  show ?thesis
    using orphans_removed_only_on_rebuild [OF t [of ?dirty] p [of ?dirty], of ?e]
      orphans_removed_only_on_rebuild [OF t [of ?clean] p [of ?clean], of ?e] d e l
    by simp
qed

text \<open>
  C7, as the code has it. The clock is read twice in a rebuild: once for the
  \<^verbatim>\<open>date\<close> attribute when the document is begun, and once more for the status
  marker after the artifact has been written. When both writes succeed, the artifact
  carries the first reading and the status marker the second.
\<close>

theorem rebuild_dates_are_two_readings:
  assumes "fileTable st = Some tbl" and "\<exists>r \<in> set tbl. dirty r"
    and "outputIndexFails e = None" and "writeStatusFails e = None"
  shows "map_option date
           (indexFiles (finishHandlingChanges e st) (getIndexPath e (watchPath (fileWatcher st))))
           = Some (dateAtIndex e)
       \<and> statusFiles (finishHandlingChanges e st) (getStatusPath e (watchPath (fileWatcher st)))
           = Some (dateAtStatus e)"
proof -
  have ne: "filter dirty tbl \<noteq> []"
    using assms(2) by (simp add: filter_empty_conv)
  show ?thesis
    using finishBody_complete(4) [OF assms(1) ne assms(3,4)]
      finishBody_rebuild(1) [OF assms(1) ne assms(3)]
    by (simp add: finish_outputs)
qed

theorem rebuild_dates_are_two_readings_witness:
  "map_option date
     (indexFiles
        (finishHandlingChanges (world (\<lambda>_. Inr True) (\<lambda>_. Inr songTag) 100 101)
           (start (constructor (musicWatcher [''/m/b.mp3''])
              (Some (Usable [(songRecord ''/m/b.mp3'')\<lparr>dirty := True\<rparr>])))))
        ''/m/index.xml'') = Some 100
   \<and> statusFiles
        (finishHandlingChanges (world (\<lambda>_. Inr True) (\<lambda>_. Inr songTag) 100 101)
           (start (constructor (musicWatcher [''/m/b.mp3''])
              (Some (Usable [(songRecord ''/m/b.mp3'')\<lparr>dirty := True\<rparr>])))))
        ''/m/status.json'' = Some 101"
proof -
  let ?e = "world (\<lambda>_. Inr True) (\<lambda>_. Inr songTag) 100 101"
  let ?tbl = "[(songRecord ''/m/b.mp3'')\<lparr>dirty := True\<rparr>]"
  let ?st = "start (constructor (musicWatcher [''/m/b.mp3'']) (Some (Usable ?tbl)))"
  have t: "fileTable ?st = Some ?tbl"
    by (simp add: world_defs)
  have d: "\<exists>r \<in> set ?tbl. dirty r"
    by simp
  have e: "outputIndexFails ?e = None" "writeStatusFails ?e = None"
    by (simp_all add: world_def)
  have w: "getIndexPath ?e (watchPath (fileWatcher ?st)) = ''/m/index.xml''"
    "getStatusPath ?e (watchPath (fileWatcher ?st)) = ''/m/status.json''"
    "dateAtIndex ?e = 100" "dateAtStatus ?e = 101"
    by (simp_all add: world_defs)
  show ?thesis
    using rebuild_dates_are_two_readings [OF t d e] unfolding w by simp
qed

theorem status_date_differs_counterexample:
  "map_option date
     (indexFiles
        (tickAndRun (world (\<lambda>_. Inr True) (\<lambda>_. Inr songTag) 100 101)
           (start (constructor (musicWatcher [''/m/a.mp3'']) None)))
        ''/m/index.xml'') = Some 100
   \<and> statusFiles
        (tickAndRun (world (\<lambda>_. Inr True) (\<lambda>_. Inr songTag) 100 101)
           (start (constructor (musicWatcher [''/m/a.mp3'']) None)))
        ''/m/status.json'' = Some 101"
  by (simp add: world_defs step_defs runQueue.simps)


text \<open>
  C8, as the code has it. When the tag reader is reached for a path (no cached record,
  or a cached one with another modification-time string) and succeeds with a kind other
  than \<^verbatim>\<open>ID3\<close> and \<^verbatim>\<open>MP4\<close>, the step does nothing more: no record is inserted or
  updated, nothing is logged and the errors-occurred flag keeps its value. The file is
  neither indexed nor treated as a failure.
\<close>

theorem other_kind_is_passed_over:
  assumes "pathExists e f = Inr True" and "fileTable st = Some tbl"
    and "by_file tbl f = None
         \<or> (\<exists>r m. by_file tbl f = Some r \<and> statMtime e f = Inr m \<and> m \<noteq> mtime r)"
    and "readID3Tag e f = Inr tag" and "tag_type tag \<noteq> ''ID3''" and "tag_type tag \<noteq> ''MP4''"
  shows "tryFile e f st = st\<lparr>tagReads := tagReads st @ [f]\<rparr>"
  using assms
  by (auto simp: tryFile_def readAndStore_def Let_def)

theorem other_kind_is_passed_over_witness:
  "tryFile (world (\<lambda>_. Inr True) (\<lambda>_. Inr (songTag\<lparr>tag_type := ''FLAC''\<rparr>)) 100 101)
     ''/m/c.flac'' (start (constructor (musicWatcher [''/m/c.flac'']) None))
   = (start (constructor (musicWatcher [''/m/c.flac'']) None))\<lparr>tagReads := [''/m/c.flac'']\<rparr>"
proof -
  let ?e = "world (\<lambda>_. Inr True) (\<lambda>_. Inr (songTag\<lparr>tag_type := ''FLAC''\<rparr>)) 100 101"
  let ?st = "start (constructor (musicWatcher [''/m/c.flac'']) None)"
  have p: "pathExists ?e ''/m/c.flac'' = Inr True"
    by (simp add: world_def)
  have t: "fileTable ?st = Some []"
    by (simp add: world_defs)
  have c: "by_file [] ''/m/c.flac'' = None
      \<or> (\<exists>r m. by_file [] ''/m/c.flac'' = Some r \<and> statMtime ?e ''/m/c.flac'' = Inr m
            \<and> m \<noteq> mtime r)"
    by (simp add: by_file_def)
  have r: "readID3Tag ?e ''/m/c.flac'' = Inr (songTag\<lparr>tag_type := ''FLAC''\<rparr>)"
    by (simp add: world_def)
  have k: "tag_type (songTag\<lparr>tag_type := ''FLAC''\<rparr>) \<noteq> ''ID3''"
    "tag_type (songTag\<lparr>tag_type := ''FLAC''\<rparr>) \<noteq> ''MP4''"
    by simp_all
  have z: "tagReads ?st = []"
    by (simp add: world_defs)
  show ?thesis
    using other_kind_is_passed_over [OF p t c r k] z by simp
qed

theorem other_kind_not_a_failure_counterexample:
  "fileTable
     (tickAndRun (world (\<lambda>_. Inr True) (\<lambda>_. Inr (songTag\<lparr>tag_type := ''FLAC''\<rparr>)) 100 101)
        (start (constructor (musicWatcher [''/m/c.flac'']) None))) = Some []
   \<and> logFile
     (tickAndRun (world (\<lambda>_. Inr True) (\<lambda>_. Inr (songTag\<lparr>tag_type := ''FLAC''\<rparr>)) 100 101)
        (start (constructor (musicWatcher [''/m/c.flac'']) None))) = []
   \<and> \<not> errorsOccurred
     (tickAndRun (world (\<lambda>_. Inr True) (\<lambda>_. Inr (songTag\<lparr>tag_type := ''FLAC''\<rparr>)) 100 101)
        (start (constructor (musicWatcher [''/m/c.flac'']) None)))
   \<and> tagReads
     (tickAndRun (world (\<lambda>_. Inr True) (\<lambda>_. Inr (songTag\<lparr>tag_type := ''FLAC''\<rparr>)) 100 101)
        (start (constructor (musicWatcher [''/m/c.flac'']) None))) = [''/m/c.flac'']"
  by (simp add: world_defs step_defs runQueue.simps)

text \<open>
  C10. When the step of a path throws before \<^verbatim>\<open>fileCachedData\<close> has been assigned
  (the existence check throws, or the collection cannot be asked), the \<^verbatim>\<open>catch\<close>
  block throws in its turn at line 223: the collection, the error log and the
  errors-occurred flag are as before, and the only trace is the exception nobody
  handles. The \<^verbatim>\<open>finally\<close> block has queued the next callback all the same: the
  callback for such a path moves the counter on and leaves as many callbacks queued as
  before, the run goes on from there, and it ends with every queued callback run.
\<close>

theorem early_throw_upserts_nothing_and_run_goes_on:
  assumes "pathExists e f = Inl ex \<or> (pathExists e f = Inr True \<and> fileTable st = None)"
  shows "tryFile e f st = st\<lparr>uncaught := uncaught st @ [typeError]\<rparr>
       \<and> (pendingCallbacks st \<noteq> 0 \<and> processedCount st + 1 < toProcessCount st
            \<and> keyAt (fileKeys st) (processedCount st + 1) = Some f
          \<longrightarrow> runImmediate e st
                = st\<lparr>processedCount := processedCount st + 1,
                     uncaught := uncaught st @ [typeError]\<rparr>
            \<and> runQueue e st
                = runQueue e (st\<lparr>processedCount := processedCount st + 1,
                                 uncaught := uncaught st @ [typeError]\<rparr>))
       \<and> pendingCallbacks (runQueue e st) = 0"
proof -
  have step: "tryFile e f s = s\<lparr>uncaught := uncaught s @ [typeError]\<rparr>"
    if "fileTable s = fileTable st" for s
    using assms that by (auto simp: tryFile_def catchBlock_def)
  have chain: "runImmediate e st
        = st\<lparr>processedCount := processedCount st + 1,
             uncaught := uncaught st @ [typeError]\<rparr>"
    if "pendingCallbacks st \<noteq> 0" and "processedCount st + 1 < toProcessCount st"
      and "keyAt (fileKeys st) (processedCount st + 1) = Some f"
    using that
    by (simp add: runImmediate_def callback_def handleNextFile_def step Let_def)
  have "runQueue e st
        = runQueue e (st\<lparr>processedCount := processedCount st + 1,
                         uncaught := uncaught st @ [typeError]\<rparr>)"
    if "pendingCallbacks st \<noteq> 0" and "processedCount st + 1 < toProcessCount st"
      and "keyAt (fileKeys st) (processedCount st + 1) = Some f"
    using chain [OF that] that(1) by (subst runQueue.simps) simp
  with step [of st] chain runQueue_done [of e st] show ?thesis
    by simp
qed


theorem early_throw_upserts_nothing_and_run_goes_on_witness:
  "runImmediate
     (world (\<lambda>p. if p = ''/m/d.mp3'' then Inl (Exn None ''{}'') else Inr True)
        (\<lambda>_. Inr songTag) 100 101)
     (startHandlingFileChanges
        (world (\<lambda>p. if p = ''/m/d.mp3'' then Inl (Exn None ''{}'') else Inr True)
           (\<lambda>_. Inr songTag) 100 101)
        (start (constructor (musicWatcher [''/m/d.mp3'', ''/m/a.mp3'']) None)))
   = (startHandlingFileChanges
        (world (\<lambda>p. if p = ''/m/d.mp3'' then Inl (Exn None ''{}'') else Inr True)
           (\<lambda>_. Inr songTag) 100 101)
        (start (constructor (musicWatcher [''/m/d.mp3'', ''/m/a.mp3'']) None)))
       \<lparr>processedCount := 0, uncaught := [typeError]\<rparr>
   \<and> map_option (map file_path)
       (fileTable
          (tickAndRun
             (world (\<lambda>p. if p = ''/m/d.mp3'' then Inl (Exn None ''{}'') else Inr True)
                (\<lambda>_. Inr songTag) 100 101)
             (start (constructor (musicWatcher [''/m/d.mp3'', ''/m/a.mp3'']) None))))
     = Some [''/m/a.mp3'']
   \<and> logFile
       (tickAndRun
          (world (\<lambda>p. if p = ''/m/d.mp3'' then Inl (Exn None ''{}'') else Inr True)
             (\<lambda>_. Inr songTag) 100 101)
          (start (constructor (musicWatcher [''/m/d.mp3'', ''/m/a.mp3'']) None))) = []
   \<and> pendingCallbacks
       (tickAndRun
          (world (\<lambda>p. if p = ''/m/d.mp3'' then Inl (Exn None ''{}'') else Inr True)
             (\<lambda>_. Inr songTag) 100 101)
          (start (constructor (musicWatcher [''/m/d.mp3'', ''/m/a.mp3'']) None))) = 0"
proof -
  let ?e = "world (\<lambda>p. if p = ''/m/d.mp3'' then Inl (Exn None ''{}'') else Inr True)
              (\<lambda>_. Inr songTag) 100 101"
  let ?st = "startHandlingFileChanges ?e
               (start (constructor (musicWatcher [''/m/d.mp3'', ''/m/a.mp3'']) None))"
  have p: "pathExists ?e ''/m/d.mp3'' = Inl (Exn None ''{}'')
      \<or> (pathExists ?e ''/m/d.mp3'' = Inr True \<and> fileTable ?st = None)"
    by (simp add: world_def)
  have q: "pendingCallbacks ?st \<noteq> 0" "processedCount ?st + 1 < toProcessCount ?st"
    "keyAt (fileKeys ?st) (processedCount ?st + 1) = Some ''/m/d.mp3''"
    "processedCount ?st + 1 = 0" "uncaught ?st = []"
    by (simp_all add: world_defs step_defs)
  have r: "map_option (map file_path) (fileTable (tickAndRun ?e
        (start (constructor (musicWatcher [''/m/d.mp3'', ''/m/a.mp3'']) None))))
      = Some [''/m/a.mp3'']"
    "logFile (tickAndRun ?e
        (start (constructor (musicWatcher [''/m/d.mp3'', ''/m/a.mp3'']) None))) = []"
    by (simp_all add: world_defs step_defs runQueue.simps)
  have "runImmediate ?e ?st
      = ?st\<lparr>processedCount := processedCount ?st + 1, uncaught := uncaught ?st @ [typeError]\<rparr>"
    using early_throw_upserts_nothing_and_run_goes_on [OF p] q(1,2,3) by blast
  then have s: "runImmediate ?e ?st = ?st\<lparr>processedCount := 0, uncaught := [typeError]\<rparr>"
    unfolding q(4,5) by simp
  have d: "pendingCallbacks (runQueue ?e ?st) = 0"
    using early_throw_upserts_nothing_and_run_goes_on [OF p] by blast
  show ?thesis
    by (intro conjI s r d [folded tickAndRun_def])
qed



text \<open>
  C9. From startup on, whatever the timer, the event loop, the watcher and the
  application do, at most one chain of callbacks is alive, and the busy guard is set
  while one is. A tick queues a callback only when the watcher's dirty signal is set and
  the busy guard is clear; a tick that finds the guard set changes nothing. Finalization
  ends with the guard cleared and, if a callback is registered for it, the run-complete
  notification fired, on every way out of its body, a thrown exception included.
\<close>

theorem at_most_one_run:
  "pendingCallbacks (execAll evs (start (constructor w disk))) \<le> 1
   \<and> (pendingCallbacks (execAll evs (start (constructor w disk))) = 1
        \<longrightarrow> busy (execAll evs (start (constructor w disk))))
   \<and> (pendingCallbacks (startHandlingFileChanges e st) \<noteq> pendingCallbacks st
        \<longrightarrow> watcher_dirty (fileWatcher st) \<and> \<not> busy st)
   \<and> (watcher_dirty (fileWatcher st) \<and> \<not> busy st \<and> clearLogFails e = None
        \<longrightarrow> pendingCallbacks (startHandlingFileChanges e st) = Suc (pendingCallbacks st)
          \<and> busy (startHandlingFileChanges e st))
   \<and> (busy st \<longrightarrow> startHandlingFileChanges e st = st)
   \<and> \<not> busy (finishHandlingChanges e st)
   \<and> notifications (finishHandlingChanges e st)
       = notifications st @ (if onIndexingDone st then [IndexingDone] else [])"
proof -
  have "oneRun (execAll evs (start (constructor w disk)))"
    by (rule oneRun_execAll [OF oneRun_start])
  then have one: "pendingCallbacks (execAll evs (start (constructor w disk))) \<le> 1"
    and guard: "pendingCallbacks (execAll evs (start (constructor w disk))) = 1
           \<longrightarrow> busy (execAll evs (start (constructor w disk)))"
    by (simp_all add: oneRun_def)
  have only: "pendingCallbacks (startHandlingFileChanges e st) \<noteq> pendingCallbacks st
      \<longrightarrow> watcher_dirty (fileWatcher st) \<and> \<not> busy st"
    by (simp add: startHandlingFileChanges_def)
  have starts: "watcher_dirty (fileWatcher st) \<and> \<not> busy st \<and> clearLogFails e = None
      \<longrightarrow> pendingCallbacks (startHandlingFileChanges e st) = Suc (pendingCallbacks st)
        \<and> busy (startHandlingFileChanges e st)"
    by (simp add: startHandlingFileChanges_def notify_def handleNextFile_def Let_def)
  have noop: "busy st \<longrightarrow> startHandlingFileChanges e st = st"
    by (simp add: startHandlingFileChanges_def)
  have cleared: "\<not> busy (finishHandlingChanges e st)"
    by simp
  have fired: "notifications (finishHandlingChanges e st)
       = notifications st @ (if onIndexingDone st then [IndexingDone] else [])"
    by (rule finishHandlingChanges_notifications)
  show ?thesis
    by (intro conjI one guard only starts noop cleared fired)
qed


theorem at_most_one_run_witness:
  "pendingCallbacks
     (execAll [Tick (world (\<lambda>_. Inr True) (\<lambda>_. Inr songTag) 100 101),
               WatcherChange (musicWatcher [''/m/a.mp3'']),
               Tick (world (\<lambda>_. Inr True) (\<lambda>_. Inr songTag) 100 101)]
        (start (constructor (musicWatcher [''/m/a.mp3'']) None))) = 1
   \<and> busy
     (execAll [Tick (world (\<lambda>_. Inr True) (\<lambda>_. Inr songTag) 100 101),
               WatcherChange (musicWatcher [''/m/a.mp3'']),
               Tick (world (\<lambda>_. Inr True) (\<lambda>_. Inr songTag) 100 101)]
        (start (constructor (musicWatcher [''/m/a.mp3'']) None)))
   \<and> pendingCallbacks
       (startHandlingFileChanges (world (\<lambda>_. Inr True) (\<lambda>_. Inr songTag) 100 101)
          (start (constructor (musicWatcher [''/m/a.mp3'']) None))) = 1
   \<and> startHandlingFileChanges (world (\<lambda>_. Inr True) (\<lambda>_. Inr songTag) 100 101)
       ((start (constructor (musicWatcher [''/m/a.mp3'']) None))\<lparr>busy := True\<rparr>)
     = (start (constructor (musicWatcher [''/m/a.mp3'']) None))\<lparr>busy := True\<rparr>
   \<and> \<not> busy
       (finishHandlingChanges
          ((world (\<lambda>_. Inr True) (\<lambda>_. Inr songTag) 100 101)
             \<lparr>outputIndexFails := Some (Exn None ''{}'')\<rparr>)
          ((start (constructor (musicWatcher [''/m/a.mp3''])
               (Some (Usable [(songRecord ''/m/a.mp3'')\<lparr>dirty := True\<rparr>]))))
             \<lparr>busy := True, onIndexingDone := True\<rparr>))
   \<and> notifications
       (finishHandlingChanges
          ((world (\<lambda>_. Inr True) (\<lambda>_. Inr songTag) 100 101)
             \<lparr>outputIndexFails := Some (Exn None ''{}'')\<rparr>)
          ((start (constructor (musicWatcher [''/m/a.mp3''])
               (Some (Usable [(songRecord ''/m/a.mp3'')\<lparr>dirty := True\<rparr>]))))
             \<lparr>busy := True, onIndexingDone := True\<rparr>)) = [IndexingDone]
   \<and> uncaught
       (finishHandlingChanges
          ((world (\<lambda>_. Inr True) (\<lambda>_. Inr songTag) 100 101)
             \<lparr>outputIndexFails := Some (Exn None ''{}'')\<rparr>)
          ((start (constructor (musicWatcher [''/m/a.mp3''])
               (Some (Usable [(songRecord ''/m/a.mp3'')\<lparr>dirty := True\<rparr>]))))
             \<lparr>busy := True, onIndexingDone := True\<rparr>)) = [Exn None ''{}'']"
proof -
  let ?e = "world (\<lambda>_. Inr True) (\<lambda>_. Inr songTag) 100 101"
  let ?f = "?e\<lparr>outputIndexFails := Some (Exn None ''{}'')\<rparr>"
  let ?evs = "[Tick ?e, WatcherChange (musicWatcher [''/m/a.mp3'']), Tick ?e]"
  let ?st = "start (constructor (musicWatcher [''/m/a.mp3'']) None)"
  let ?fin = "(start (constructor (musicWatcher [''/m/a.mp3''])
               (Some (Usable [(songRecord ''/m/a.mp3'')\<lparr>dirty := True\<rparr>]))))
             \<lparr>busy := True, onIndexingDone := True\<rparr>"
  have two: "pendingCallbacks (execAll ?evs ?st) = 1"
    by (simp add: execAll_def world_defs step_defs)
  have guard: "busy (execAll ?evs ?st)"
    using at_most_one_run [of ?evs "musicWatcher [''/m/a.mp3'']" None] two by blast
  have ready: "watcher_dirty (fileWatcher ?st) \<and> \<not> busy ?st \<and> clearLogFails ?e = None"
    "pendingCallbacks ?st = 0"
    by (simp_all add: world_defs)
  have starts: "pendingCallbacks (startHandlingFileChanges ?e ?st) = 1"
    using at_most_one_run [of _ _ _ ?e ?st] ready by simp
  have noop: "startHandlingFileChanges ?e (?st\<lparr>busy := True\<rparr>) = ?st\<lparr>busy := True\<rparr>"
    using at_most_one_run [of _ _ _ ?e "?st\<lparr>busy := True\<rparr>"] by simp
  have cleared: "\<not> busy (finishHandlingChanges ?f ?fin)"
    using at_most_one_run [of _ _ _ ?f ?fin] by blast
  have "notifications (finishHandlingChanges ?f ?fin)
      = notifications ?fin @ (if onIndexingDone ?fin then [IndexingDone] else [])"
    using at_most_one_run [of _ _ _ ?f ?fin] by blast
  then have fired: "notifications (finishHandlingChanges ?f ?fin) = [IndexingDone]"
    by (simp add: world_defs)
  have threw: "uncaught (finishHandlingChanges ?f ?fin) = [Exn None ''{}'']"
    by (simp add: world_defs step_defs)
  show ?thesis
    by (intro conjI two guard starts noop cleared fired threw)
qed

text \<open>
  C6. Startup with a cache file from which no collection can be had removes that file
  and goes on with an empty collection; startup without a cache file goes on with an
  empty collection; a usable cache file is loaded as it is. In each case nothing else
  changes but the timer being started, so no exception is left unhandled.
\<close>

theorem startup_recovers_from_corrupt_cache:
  "start (st\<lparr>lokiFile := Some Corrupt\<rparr>)
     = st\<lparr>lokiFile := None, fileTable := Some [], interval := True\<rparr>
   \<and> start (st\<lparr>lokiFile := None\<rparr>)
     = st\<lparr>lokiFile := None, fileTable := Some [], interval := True\<rparr>
   \<and> start (st\<lparr>lokiFile := Some (Usable tbl)\<rparr>)
     = st\<lparr>lokiFile := Some (Usable tbl), fileTable := Some tbl, interval := True\<rparr>"
  by (simp add: start_def loadLokiFromFile_def createCollection_def)


text \<open>
  C5. The file exists and the collection is there, as in every step of a run. When the
  step then throws, be it \<^verbatim>\<open>fs.statSync\<close> or the tag reader, with a tag failure or
  with anything else, the cache holds a record for the path with no tag data, not dirty,
  and with the modification-time string if the file has been stat-ed (the empty string
  otherwise); one line is added to the error log, worded by the kind of failure; the
  errors-occurred flag is set; and no exception leaves the step. In a run, the callback
  of such a path has queued the next callback and moved the counter on, and the run ends
  with every queued callback run.
\<close>

theorem failed_file_is_recorded_and_run_goes_on:
  assumes "pathExists e f = Inr True" and "fileTable st = Some tbl"
    and "stepThrows e tbl f ex"
  shows "map_option (\<lambda>r. (file_path r, dirty r, tagData r)) (cachedRecord (tryFile e f st) f)
           = Some (f, False, None)
       \<and> map_option mtime (cachedRecord (tryFile e f st) f) = Some (mtimeIfKnown e tbl f)
       \<and> logFile (tryFile e f st)
           = logFile st @ [f @ (if exType ex = Some ''tagfail'' then '' tag read fail.''
                                else '' could not be read, is it properly tagged?'')
                             @ '' : '' @ exJson ex]
       \<and> errorsOccurred (tryFile e f st)
       \<and> uncaught (tryFile e f st) = uncaught st
       \<and> (pendingCallbacks st \<noteq> 0 \<and> processedCount st + 1 < toProcessCount st
            \<and> keyAt (fileKeys st) (processedCount st + 1) = Some f
          \<longrightarrow> pendingCallbacks (runImmediate e st) = pendingCallbacks st
            \<and> processedCount (runImmediate e st) = processedCount st + 1
            \<and> busy (runImmediate e st) = busy st
            \<and> errorsOccurred (runImmediate e st)
            \<and> uncaught (runImmediate e st) = uncaught st
            \<and> map_option (\<lambda>r. (file_path r, dirty r, tagData r))
                 (cachedRecord (runImmediate e st) f) = Some (f, False, None))
       \<and> pendingCallbacks (runQueue e st) = 0"
proof -
  have chain: "pendingCallbacks (runImmediate e st) = pendingCallbacks st
      \<and> processedCount (runImmediate e st) = processedCount st + 1
      \<and> busy (runImmediate e st) = busy st
      \<and> errorsOccurred (runImmediate e st)
      \<and> uncaught (runImmediate e st) = uncaught st
      \<and> map_option (\<lambda>r. (file_path r, dirty r, tagData r))
           (cachedRecord (runImmediate e st) f) = Some (f, False, None)"
    if pending: "pendingCallbacks st \<noteq> 0" and more: "processedCount st + 1 < toProcessCount st"
      and key: "keyAt (fileKeys st) (processedCount st + 1) = Some f"
  proof -
    let ?s1 = "st\<lparr>pendingCallbacks := pendingCallbacks st - Suc 0,
                    processedCount := processedCount st + 1\<rparr>"
    have t1: "fileTable ?s1 = Some tbl"
      using assms(2) by simp
    have run: "runImmediate e st = handleNextFile (tryFile e f ?s1)"
      using pending more key by (simp add: runImmediate_def callback_def Let_def)
    have "cachedRecord (handleNextFile (tryFile e f ?s1)) f = cachedRecord (tryFile e f ?s1) f"
      by (simp add: cachedRecord_def handleNextFile_def)
    with thrown_step_is_recorded(1,4,5) [OF assms(1) t1 assms(3)] pending show ?thesis
      unfolding run by (simp add: handleNextFile_def)
  qed
  show ?thesis
    using thrown_step_is_recorded [OF assms] chain runQueue_done [of e st] by blast
qed

theorem failed_file_is_recorded_and_run_goes_on_witness:
  "cachedRecord
     (runImmediate (world (\<lambda>_. Inr True) (\<lambda>_. Inl (Exn (Some ''tagfail'') ''{}'')) 100 101)
        (startHandlingFileChanges
           (world (\<lambda>_. Inr True) (\<lambda>_. Inl (Exn (Some ''tagfail'') ''{}'')) 100 101)
           (start (constructor (musicWatcher [''/m/b.mp3'', ''/m/a.mp3'']) None))))
     ''/m/b.mp3''
     = Some \<lparr> file_path = ''/m/b.mp3'', dirty = False, mtime = [], tagData = None,
              isValid = None \<rparr>
   \<and> logFile
       (tryFile (world (\<lambda>_. Inr True) (\<lambda>_. Inl (Exn (Some ''tagfail'') ''{}'')) 100 101)
          ''/m/b.mp3''
          (startHandlingFileChanges
             (world (\<lambda>_. Inr True) (\<lambda>_. Inl (Exn (Some ''tagfail'') ''{}'')) 100 101)
             (start (constructor (musicWatcher [''/m/b.mp3'', ''/m/a.mp3'']) None))))
     = [''/m/b.mp3 tag read fail. : {}'']
   \<and> errorsOccurred
       (runImmediate (world (\<lambda>_. Inr True) (\<lambda>_. Inl (Exn (Some ''tagfail'') ''{}'')) 100 101)
          (startHandlingFileChanges
             (world (\<lambda>_. Inr True) (\<lambda>_. Inl (Exn (Some ''tagfail'') ''{}'')) 100 101)
             (start (constructor (musicWatcher [''/m/b.mp3'', ''/m/a.mp3'']) None))))
   \<and> pendingCallbacks
       (runImmediate (world (\<lambda>_. Inr True) (\<lambda>_. Inl (Exn (Some ''tagfail'') ''{}'')) 100 101)
          (startHandlingFileChanges
             (world (\<lambda>_. Inr True) (\<lambda>_. Inl (Exn (Some ''tagfail'') ''{}'')) 100 101)
             (start (constructor (musicWatcher [''/m/b.mp3'', ''/m/a.mp3'']) None)))) = 1
   \<and> logFile
       (tickAndRun (world (\<lambda>_. Inr True) (\<lambda>_. Inl (Exn (Some ''tagfail'') ''{}'')) 100 101)
          (start (constructor (musicWatcher [''/m/b.mp3'', ''/m/a.mp3'']) None)))
     = [''/m/b.mp3 tag read fail. : {}'', ''/m/a.mp3 tag read fail. : {}'']
   \<and> pendingCallbacks
       (tickAndRun (world (\<lambda>_. Inr True) (\<lambda>_. Inl (Exn (Some ''tagfail'') ''{}'')) 100 101)
          (start (constructor (musicWatcher [''/m/b.mp3'', ''/m/a.mp3'']) None))) = 0"
proof -
  let ?e = "world (\<lambda>_. Inr True) (\<lambda>_. Inl (Exn (Some ''tagfail'') ''{}'')) 100 101"
  let ?st = "startHandlingFileChanges ?e
               (start (constructor (musicWatcher [''/m/b.mp3'', ''/m/a.mp3'']) None))"
  have p: "pathExists ?e ''/m/b.mp3'' = Inr True"
    by (simp add: world_def)
  have t: "fileTable ?st = Some []"
    by (simp add: world_defs step_defs)
  have x: "stepThrows ?e [] ''/m/b.mp3'' (Exn (Some ''tagfail'') ''{}'')"
    by (simp add: stepThrows_def by_file_def world_def)
  have q: "pendingCallbacks ?st \<noteq> 0 \<and> processedCount ?st + 1 < toProcessCount ?st
      \<and> keyAt (fileKeys ?st) (processedCount ?st + 1) = Some ''/m/b.mp3''"
    "pendingCallbacks ?st = 1" "logFile ?st = []"
    by (simp_all add: world_defs step_defs)
  have full: "cachedRecord (runImmediate ?e ?st) ''/m/b.mp3''
      = Some \<lparr> file_path = ''/m/b.mp3'', dirty = False, mtime = [], tagData = None,
               isValid = None \<rparr>"
    by (simp add: world_defs step_defs)
  have line: "logFile (tryFile ?e ''/m/b.mp3'' ?st) = [''/m/b.mp3 tag read fail. : {}'']"
    using failed_file_is_recorded_and_run_goes_on [OF p t x] q(3) by simp
  have flag: "errorsOccurred (runImmediate ?e ?st)"
    using failed_file_is_recorded_and_run_goes_on [OF p t x] q(1) by blast
  have "pendingCallbacks (runImmediate ?e ?st) = pendingCallbacks ?st"
    using failed_file_is_recorded_and_run_goes_on [OF p t x] q(1) by blast
  then have queued: "pendingCallbacks (runImmediate ?e ?st) = 1"
    unfolding q(2) .
  have log: "logFile (tickAndRun ?e
        (start (constructor (musicWatcher [''/m/b.mp3'', ''/m/a.mp3'']) None)))
      = [''/m/b.mp3 tag read fail. : {}'', ''/m/a.mp3 tag read fail. : {}'']"
    by (simp add: world_defs step_defs runQueue.simps)
  have ended: "pendingCallbacks (runQueue ?e ?st) = 0"
    using failed_file_is_recorded_and_run_goes_on [OF p t x] by blast
  show ?thesis
    by (intro conjI full line flag queued log ended [folded tickAndRun_def])
qed

text \<open>
  C2, at an input where the code departs from it. A song is seen for the first time: the
  record stored for it carries the empty string as modification time, not the file's
  \<^verbatim>\<open>t1\<close>, because the file is stat-ed only when a cached record exists. The next
  triggered run, with the same files and the same modification times, therefore reads
  the tag again and rebuilds: the artifact and the status marker carry the new date.
\<close>

theorem first_sighting_is_read_twice:
  "map_option (map mtime)
     (fileTable
        (tickAndRun (world (\<lambda>_. Inr True) (\<lambda>_. Inr songTag) 100 100)
           (start (constructor (musicWatcher [''/m/a.mp3'']) None)))) = Some [[]]
   \<and> map_option date
     (indexFiles
        (tickAndRun (world (\<lambda>_. Inr True) (\<lambda>_. Inr songTag) 100 100)
           (start (constructor (musicWatcher [''/m/a.mp3'']) None)))
        ''/m/index.xml'') = Some 100
   \<and> tagReads
     (tickAndRun (world (\<lambda>_. Inr True) (\<lambda>_. Inr songTag) 200 200)
        (exec (WatcherChange (musicWatcher [''/m/a.mp3'']))
           (tickAndRun (world (\<lambda>_. Inr True) (\<lambda>_. Inr songTag) 100 100)
              (start (constructor (musicWatcher [''/m/a.mp3'']) None)))))
     = [''/m/a.mp3'', ''/m/a.mp3'']
   \<and> map_option date
     (indexFiles
        (tickAndRun (world (\<lambda>_. Inr True) (\<lambda>_. Inr songTag) 200 200)
           (exec (WatcherChange (musicWatcher [''/m/a.mp3'']))
              (tickAndRun (world (\<lambda>_. Inr True) (\<lambda>_. Inr songTag) 100 100)
                 (start (constructor (musicWatcher [''/m/a.mp3'']) None)))))
        ''/m/index.xml'') = Some 200
   \<and> statusFiles
        (tickAndRun (world (\<lambda>_. Inr True) (\<lambda>_. Inr songTag) 200 200)
           (exec (WatcherChange (musicWatcher [''/m/a.mp3'']))
              (tickAndRun (world (\<lambda>_. Inr True) (\<lambda>_. Inr songTag) 100 100)
                 (start (constructor (musicWatcher [''/m/a.mp3'']) None)))))
        ''/m/status.json'' = Some 200"
  by (simp add: world_defs step_defs runQueue.simps)

end
